theory Spec2Isabelle
  imports Complex_Main "HOL-Library.AList" "HOL-Library.Sublist"
    "HOL-Library.Char_ord" "HOL-Library.List_Lexorder" "HOL-Library.Log_Nat"
begin

section \<open>The task model (backend/models/Task.js)\<close>

text \<open>
  Conventions of the embedding.
  \<^item> A JavaScript string is a \<open>string\<close>, the list of its code units, and its
    \<open>length\<close> is the length of the list. The type holds the code units below 256:
    the strings of the model are the strings of ISO 8859-1 characters.
  \<^item> A point in time is the number of milliseconds since the epoch, an \<open>int\<close>. A
    \<open>Date\<close> object is a \<open>jsdate\<close>: its time value, or \<open>InvalidDate\<close> when the
    time value is NaN.
  \<^item> A payload field that is \<open>undefined\<close> is \<open>None\<close>. The operator \<open>||\<close> on an
    optional string takes its right operand when the left one is \<open>undefined\<close> or the
    empty string.
  \<^item> \<open>new Date()\<close> reads the system clock; every read is a parameter of the operation
    that performs it. \<open>uuidv4()\<close> is a parameter too.
  \<^item> The numbers \<open>page\<close> and \<open>limit\<close> are integers, and so are counts and indices.
  \<^item> \<open>toISOString\<close> is injective on valid dates, so a serialised timestamp is
    represented by the instant it denotes.
\<close>

type_synonym instant = int

datatype jsdate = Instant instant | InvalidDate

text \<open>The value of \<open>data.dueDate\<close>: a falsy value (\<open>null\<close>, the empty string), or a
  value that \<open>new Date(v)\<close> turns into the given Date object.\<close>

datatype date_arg = DateFalsy | DateValue jsdate

text \<open>The value of \<open>data.tags\<close>: an array of strings, or something that is no array.\<close>

datatype tags_arg = NotArray | TagArray "string list"

record TaskData =
  d_id :: "string option"
  d_title :: "string option"
  d_description :: "string option"
  d_status :: "string option"
  d_priority :: "string option"
  d_dueDate :: "date_arg option"
  d_tags :: "tags_arg option"
  d_createdAt :: "jsdate option"

record Task =
  taskId :: string
  title :: string
  description :: string
  status :: string
  priority :: string
  dueDate :: "jsdate option"
  tags :: "string list"
  createdAt :: jsdate
  updatedAt :: jsdate

datatype violation =
  TitleRequired | TitleTooLong | DescriptionTooLong | BadStatus | BadPriority | BadDueDate

datatype error = ValidationFailed "violation list" | NotFound | RangeError

definition or_else :: "string option \<Rightarrow> string \<Rightarrow> string" where
  "or_else x d = (case x of None \<Rightarrow> d | Some s \<Rightarrow> if s = [] then d else s)"

text \<open>The white space and line terminators that \<open>trim\<close> strips, as far as they are
  code units below 256: tab, line feed, vertical tab, form feed, carriage return, space
  and the no-break space.\<close>

definition isSpace :: "char \<Rightarrow> bool" where
  "isSpace c = (c \<in> set [CHR 0x09, CHR 0x0A, CHR 0x0B, CHR 0x0C, CHR 0x0D, CHR 0x20, CHR 0xA0])"

definition trim :: "string \<Rightarrow> string" where
  "trim s = rev (dropWhile isSpace (rev (dropWhile isSpace s)))"

definition validStatuses :: "string list" where
  "validStatuses = [''todo'', ''in_progress'', ''completed'']"

definition validPriorities :: "string list" where
  "validPriorities = [''low'', ''medium'', ''high'']"

text \<open>\<open>validate\<close> collects every violated rule in source order; the model returns the
  list, and the callers turn a non-empty list into the thrown error. The last check of
  the source (\<open>tags\<close> is an array) cannot fail: both writers of \<open>tags\<close> store an array.\<close>

definition validate :: "Task \<Rightarrow> violation list" where
  "validate t =
     (if title t = [] \<or> length (trim (title t)) = 0 then [TitleRequired] else []) @
     (if length (title t) > 100 then [TitleTooLong] else []) @
     (if description t \<noteq> [] \<and> length (description t) > 500 then [DescriptionTooLong] else []) @
     (if status t \<notin> set validStatuses then [BadStatus] else []) @
     (if priority t \<notin> set validPriorities then [BadPriority] else []) @
     (if dueDate t = Some InvalidDate then [BadDueDate] else [])"

definition newDueDate :: "date_arg \<Rightarrow> jsdate option" where
  "newDueDate a = (case a of DateFalsy \<Rightarrow> None | DateValue d \<Rightarrow> Some d)"

definition newTags :: "tags_arg \<Rightarrow> string list" where
  "newTags a = (case a of NotArray \<Rightarrow> [] | TagArray ts \<Rightarrow> ts)"

text \<open>The constructor. \<open>uuid\<close> is what \<open>uuidv4()\<close> returns if it is called, \<open>now1\<close>
  and \<open>now2\<close> are the clock readings of lines 16 and 17.\<close>

definition Task_new :: "TaskData \<Rightarrow> string \<Rightarrow> instant \<Rightarrow> instant \<Rightarrow> error + Task" where
  "Task_new data uuid now1 now2 =
     (let t = \<lparr> taskId = or_else (d_id data) uuid,
                title = or_else (d_title data) [],
                description = or_else (d_description data) [],
                status = or_else (d_status data) ''todo'',
                priority = or_else (d_priority data) ''medium'',
                dueDate = (case d_dueDate data of None \<Rightarrow> None | Some a \<Rightarrow> newDueDate a),
                tags = (case d_tags data of None \<Rightarrow> [] | Some a \<Rightarrow> newTags a),
                createdAt = (case d_createdAt data of None \<Rightarrow> Instant now1 | Some c \<Rightarrow> c),
                updatedAt = Instant now2 \<rparr>
      in if validate t = [] then Inr t else Inl (ValidationFailed (validate t)))"

text \<open>The assignments of \<open>update\<close> (lines 72 to 80), before it validates.\<close>

definition assignFields :: "TaskData \<Rightarrow> instant \<Rightarrow> Task \<Rightarrow> Task" where
  "assignFields data now t =
     t \<lparr> title := (case d_title data of None \<Rightarrow> title t | Some s \<Rightarrow> s),
         description := (case d_description data of None \<Rightarrow> description t | Some s \<Rightarrow> s),
         status := (case d_status data of None \<Rightarrow> status t | Some s \<Rightarrow> s),
         priority := (case d_priority data of None \<Rightarrow> priority t | Some s \<Rightarrow> s),
         dueDate := (case d_dueDate data of None \<Rightarrow> dueDate t | Some a \<Rightarrow> newDueDate a),
         tags := (case d_tags data of None \<Rightarrow> tags t | Some a \<Rightarrow> newTags a),
         updatedAt := Instant now \<rparr>"

record TaskJSON =
  j_id :: string
  j_title :: string
  j_description :: string
  j_status :: string
  j_priority :: string
  j_dueDate :: "instant option"
  j_tags :: "string list"
  j_createdAt :: instant
  j_updatedAt :: instant

text \<open>\<open>toISOString\<close> throws a RangeError on an invalid date.\<close>

definition toJSON :: "Task \<Rightarrow> error + TaskJSON" where
  "toJSON t =
     (case dueDate t of
        Some InvalidDate \<Rightarrow> Inl RangeError
      | due \<Rightarrow>
        (case createdAt t of
           InvalidDate \<Rightarrow> Inl RangeError
         | Instant c \<Rightarrow>
           (case updatedAt t of
              InvalidDate \<Rightarrow> Inl RangeError
            | Instant u \<Rightarrow>
                Inr \<lparr> j_id = taskId t, j_title = title t, j_description = description t,
                      j_status = status t, j_priority = priority t,
                      j_dueDate = (case due of Some (Instant d) \<Rightarrow> Some d | _ \<Rightarrow> None),
                      j_tags = tags t, j_createdAt = c, j_updatedAt = u \<rparr>)))"


section \<open>The store (backend/services/taskService.js)\<close>

text \<open>
  \<open>this.tasks\<close> is a \<open>Map\<close> from ids to Task objects. The objects are mutable and the
  map holds references to them, so the state is a heap of objects (\<open>objects\<close>, by
  reference) and the map as an association list from ids to references, in insertion
  order. \<open>Map.set\<close> on a present key replaces the value where the key stands, on a new
  key it appends: \<open>AList.update\<close>.
\<close>

type_synonym ref = nat

record TaskService =
  objects :: "ref \<rightharpoonup> Task"
  tasks :: "(string \<times> ref) list"
  nextRef :: ref

definition emptyService :: TaskService where
  "emptyService = \<lparr> objects = Map.empty, tasks = [], nextRef = 0 \<rparr>"

text \<open>\<open>Array.from(this.tasks.values())\<close>, the objects read through their references.\<close>

definition taskValues :: "TaskService \<Rightarrow> Task list" where
  "taskValues svc = List.map_filter (objects svc) (map snd (tasks svc))"

text \<open>\<open>Task.update\<close> on the object behind reference \<open>r\<close>: the fields are assigned in
  place, then the object is validated. The heap is returned in both outcomes. (Every
  reference in the map is allocated by \<open>createTask\<close>; the branches for a reference
  without an object are there to make the functions total and are never taken.)\<close>

definition Task_update ::
  "ref \<Rightarrow> TaskData \<Rightarrow> instant \<Rightarrow> (ref \<rightharpoonup> Task) \<Rightarrow> error option \<times> (ref \<rightharpoonup> Task)" where
  "Task_update r data now h =
     (case h r of
        None \<Rightarrow> (None, h)
      | Some t \<Rightarrow>
          (let t' = assignFields data now t; h' = h(r \<mapsto> t')
           in if validate t' = [] then (None, h') else (Some (ValidationFailed (validate t')), h')))"

definition createTask ::
  "TaskService \<Rightarrow> TaskData \<Rightarrow> string \<Rightarrow> instant \<Rightarrow> instant \<Rightarrow> (error + TaskJSON) \<times> TaskService" where
  "createTask svc data uuid now1 now2 =
     (case Task_new data uuid now1 now2 of
        Inl e \<Rightarrow> (Inl e, svc)
      | Inr t \<Rightarrow>
          (let r = nextRef svc;
               svc' = svc \<lparr> objects := (objects svc)(r \<mapsto> t),
                            tasks := AList.update (taskId t) r (tasks svc),
                            nextRef := Suc r \<rparr>
           in (toJSON t, svc')))"

definition getTaskById :: "TaskService \<Rightarrow> string \<Rightarrow> error + TaskJSON" where
  "getTaskById svc i =
     (case map_of (tasks svc) i of
        None \<Rightarrow> Inl NotFound
      | Some r \<Rightarrow> (case objects svc r of None \<Rightarrow> Inl NotFound | Some t \<Rightarrow> toJSON t))"

definition updateTask ::
  "TaskService \<Rightarrow> string \<Rightarrow> TaskData \<Rightarrow> instant \<Rightarrow> (error + TaskJSON) \<times> TaskService" where
  "updateTask svc i data now =
     (case map_of (tasks svc) i of
        None \<Rightarrow> (Inl NotFound, svc)
      | Some r \<Rightarrow>
          (case Task_update r data now (objects svc) of
             (Some e, h) \<Rightarrow> (Inl e, svc \<lparr> objects := h \<rparr>)
           | (None, h) \<Rightarrow>
               (let svc' = svc \<lparr> objects := h, tasks := AList.update i r (tasks svc) \<rparr>
                in (case h r of None \<Rightarrow> (Inl NotFound, svc') | Some t \<Rightarrow> (toJSON t, svc')))))"

definition deleteTask :: "TaskService \<Rightarrow> string \<Rightarrow> (error + unit) \<times> TaskService" where
  "deleteTask svc i =
     (case map_of (tasks svc) i of
        None \<Rightarrow> (Inl NotFound, svc)
      | Some r \<Rightarrow> (Inr (), svc \<lparr> tasks := AList.delete i (tasks svc) \<rparr>))"

definition clearAllTasks :: "TaskService \<Rightarrow> TaskService" where
  "clearAllTasks svc = svc \<lparr> tasks := [] \<rparr>"

text \<open>An empty payload, and a store holding one task, for the examples below.\<close>

definition noData :: TaskData where
  "noData = \<lparr> d_id = None, d_title = None, d_description = None, d_status = None,
              d_priority = None, d_dueDate = None, d_tags = None, d_createdAt = None \<rparr>"

definition oneTask :: TaskService where
  "oneTask = snd (createTask emptyService (noData \<lparr> d_title := Some ''write report'' \<rparr>) ''id-1'' 1000 1000)"

section \<open>The query engine (TaskService.getTasks)\<close>

record Filters =
  f_status :: "string option"
  f_priority :: "string option"
  f_search :: "string option"
  f_tags :: "string list option"
  f_sortBy :: "string option"
  f_sortOrder :: "string option"

record Pagination =
  p_page :: "int option"
  p_limit :: "int option"

text \<open>The default arguments \<open>filters = {}\<close> and \<open>pagination = {}\<close>.\<close>

definition noFilters :: Filters where
  "noFilters = \<lparr> f_status = None, f_priority = None, f_search = None, f_tags = None,
                 f_sortBy = None, f_sortOrder = None \<rparr>"

definition noPagination :: Pagination where
  "noPagination = \<lparr> p_page = None, p_limit = None \<rparr>"

text \<open>
  \<open>String.prototype.toLowerCase\<close> on the code units below 256. The upper-case letters
  there are A to Z (65 to 90) and the letters from 192 to 222 without the
  multiplication sign 215; each has its lower-case letter 32 places on, and the
  mapping changes no other code unit. \<open>includes\<close> (here \<open>includes_str\<close>) is the test
  for a contiguous substring.
\<close>

definition isUpperCase :: "char \<Rightarrow> bool" where
  "isUpperCase c =
     (let n = (of_char c :: int)
      in (65 \<le> n \<and> n \<le> 90) \<or> (192 \<le> n \<and> n \<le> 214) \<or> (216 \<le> n \<and> n \<le> 222))"

definition toLowerChar :: "char \<Rightarrow> char" where
  "toLowerChar c = (if isUpperCase c then char_of (of_char c + (32::int)) else c)"

definition toLowerCase :: "string \<Rightarrow> string" where
  "toLowerCase s = map toLowerChar s"

definition includes_str :: "string \<Rightarrow> string \<Rightarrow> bool" where
  "includes_str hay needle = sublist needle hay"

definition matchesSearch :: "string \<Rightarrow> Task \<Rightarrow> bool" where
  "matchesSearch searchTerm t =
     (includes_str (toLowerCase (title t)) searchTerm \<or>
      includes_str (toLowerCase (description t)) searchTerm \<or>
      list_ex (\<lambda>tag. includes_str (toLowerCase tag) searchTerm) (tags t))"

definition matchesTags :: "string list \<Rightarrow> Task \<Rightarrow> bool" where
  "matchesTags wanted t = list_ex (\<lambda>tag. tag \<in> set (tags t)) wanted"

text \<open>Lines 71 to 92. A filter is active when its value is truthy (a non-empty string),
  the tag filter when the list is non-empty.\<close>

definition applyFilters :: "Filters \<Rightarrow> Task list \<Rightarrow> Task list" where
  "applyFilters f ts =
     (let ts1 = (case f_status f of
                   Some s \<Rightarrow> if s \<noteq> [] then filter (\<lambda>t. status t = s) ts else ts
                 | None \<Rightarrow> ts);
          ts2 = (case f_priority f of
                   Some p \<Rightarrow> if p \<noteq> [] then filter (\<lambda>t. priority t = p) ts1 else ts1
                 | None \<Rightarrow> ts1);
          ts3 = (case f_search f of
                   Some q \<Rightarrow> if q \<noteq> [] then filter (matchesSearch (toLowerCase q)) ts2 else ts2
                 | None \<Rightarrow> ts2);
          ts4 = (case f_tags f of
                   Some wanted \<Rightarrow> if length wanted > 0 then filter (matchesTags wanted) ts3 else ts3
                 | None \<Rightarrow> ts3)
      in ts4)"

text \<open>The values the comparator compares: strings (by code unit), numbers, and NaN for
  the time value of an invalid date. \<open><\<close> and \<open>>\<close> with NaN are false, and so they are
  between a number and a string that is no numeral.\<close>

datatype sortval = StrVal string | NumVal int | NaNVal

fun lessVal :: "sortval \<Rightarrow> sortval \<Rightarrow> bool" where
  "lessVal (StrVal a) (StrVal b) = (a < b)"
| "lessVal (NumVal a) (NumVal b) = (a < b)"
| "lessVal _ _ = False"

definition timeValue :: "jsdate \<Rightarrow> sortval" where
  "timeValue d = (case d of Instant n \<Rightarrow> NumVal n | InvalidDate \<Rightarrow> NaNVal)"

text \<open>\<open>new Date(9999, 11, 31)\<close> is midnight of 31 December 9999 in local time.
  \<open>tz\<close> is the offset of local time as \<open>getTimezoneOffset\<close> reports it for that day,
  in minutes (UTC minus local time).\<close>

definition farFuture :: "int \<Rightarrow> instant" where
  "farFuture tz = 253402214400000 + tz * 60000"

text \<open>
  An object literal inherits the properties of \<open>Object.prototype\<close>: reading a key that
  is no own property gives the inherited value when the key is one of these names, and
  \<open>undefined\<close> otherwise. The inherited values are functions, that of \<open>__proto__\<close> is
  the prototype object. \<open>inheritedText\<close> is the string such a value turns into where a
  primitive is wanted (the text V8 gives for a built-in function).
\<close>

definition objectPrototypeNames :: "string list" where
  "objectPrototypeNames =
     [''constructor'', ''__defineGetter__'', ''__defineSetter__'', ''hasOwnProperty'',
      ''__lookupGetter__'', ''__lookupSetter__'', ''isPrototypeOf'', ''propertyIsEnumerable'',
      ''toString'', ''valueOf'', ''__proto__'', ''toLocaleString'']"

definition inheritedText :: "string \<Rightarrow> string" where
  "inheritedText name =
     (if name = ''__proto__'' then ''[object Object]''
      else if name = ''constructor'' then ''function Object() { [native code] }''
      else ''function '' @ name @ ''() { [native code] }'')"

text \<open>\<open>priorityOrder[p] || 0\<close>: the number of the table for its three keys, the
  inherited function for a name of \<open>Object.prototype\<close> (compared as its text: less
  than no number and greater than none), and 0 for every other string.\<close>

definition priorityOrder :: "string \<Rightarrow> sortval" where
  "priorityOrder p =
     (if p = ''high'' then NumVal 3 else if p = ''medium'' then NumVal 2
      else if p = ''low'' then NumVal 1
      else if p \<in> set objectPrototypeNames then StrVal (inheritedText p)
      else NumVal 0)"

definition sortKey :: "int \<Rightarrow> string \<Rightarrow> Task \<Rightarrow> sortval" where
  "sortKey tz field t =
     (if field = ''title'' then StrVal (toLowerCase (title t))
      else if field = ''priority'' then priorityOrder (priority t)
      else if field = ''dueDate'' then
        (case dueDate t of None \<Rightarrow> NumVal (farFuture tz) | Some d \<Rightarrow> timeValue d)
      else if field = ''createdAt'' then timeValue (createdAt t)
      else StrVal (toLowerCase (title t)))"

definition compareTasks :: "int \<Rightarrow> string \<Rightarrow> string option \<Rightarrow> Task \<Rightarrow> Task \<Rightarrow> int" where
  "compareTasks tz field ord a b =
     (let aValue = sortKey tz field a; bValue = sortKey tz field b
      in if lessVal aValue bValue then (if ord = Some ''desc'' then 1 else - 1)
         else if lessVal bValue aValue then (if ord = Some ''desc'' then - 1 else 1)
         else 0)"

text \<open>
  \<open>Array.prototype.sort\<close> is stable. For a comparator that orders its arguments
  consistently the sorted array is thereby determined, and a stable insertion sort
  computes it. For a comparator that is not consistent the language leaves the order
  to the engine, and \<open>sortWith\<close> is then one possible outcome, not the engine's: that
  is the case when a key is NaN (an invalid date) or an inherited function (a priority
  that names a property of \<open>Object.prototype\<close>), which a stored task has only after a
  rejected update or a create with an invalid \<open>createdAt\<close>. What is proved about the
  order assumes valid dates; everything else holds for any rearrangement.
\<close>

fun insertWith :: "('a \<Rightarrow> 'a \<Rightarrow> int) \<Rightarrow> 'a \<Rightarrow> 'a list \<Rightarrow> 'a list" where
  "insertWith c x [] = [x]"
| "insertWith c x (y # ys) = (if c x y \<le> 0 then x # y # ys else y # insertWith c x ys)"

fun sortWith :: "('a \<Rightarrow> 'a \<Rightarrow> int) \<Rightarrow> 'a list \<Rightarrow> 'a list" where
  "sortWith c [] = []"
| "sortWith c (x # xs) = insertWith c x (sortWith c xs)"

definition sortTasks :: "int \<Rightarrow> Filters \<Rightarrow> Task list \<Rightarrow> Task list" where
  "sortTasks tz f ts =
     (case f_sortBy f of
        None \<Rightarrow> ts
      | Some field \<Rightarrow> if field = [] then ts else sortWith (compareTasks tz field (f_sortOrder f)) ts)"

text \<open>\<open>pagination.page || 1\<close>: the default replaces \<open>undefined\<close> and 0.\<close>

definition num_or_else :: "int option \<Rightarrow> int \<Rightarrow> int" where
  "num_or_else x d = (case x of None \<Rightarrow> d | Some n \<Rightarrow> if n = 0 then d else n)"

text \<open>\<open>Array.prototype.slice(start, end)\<close>: a negative index counts from the end, and
  both indices are clamped to the array.\<close>

definition js_slice :: "'a list \<Rightarrow> int \<Rightarrow> int \<Rightarrow> 'a list" where
  "js_slice xs start stop =
     (let len = int (length xs);
          k = (if start < 0 then max (len + start) 0 else min start len);
          fin = (if stop < 0 then max (len + stop) 0 else min stop len)
      in take (nat (fin - k)) (drop (nat k) xs))"

fun mapToJSON :: "Task list \<Rightarrow> error + TaskJSON list" where
  "mapToJSON [] = Inr []"
| "mapToJSON (t # ts) =
     (case toJSON t of
        Inl e \<Rightarrow> Inl e
      | Inr j \<Rightarrow> (case mapToJSON ts of Inl e \<Rightarrow> Inl e | Inr js \<Rightarrow> Inr (j # js)))"

record PageInfo =
  pg_page :: int
  pg_limit :: int
  pg_total :: int
  pg_totalPages :: int
  pg_hasNext :: bool
  pg_hasPrev :: bool

record TaskPage =
  r_tasks :: "TaskJSON list"
  r_pagination :: PageInfo

text \<open>The filtered and sorted array that \<open>getTasks\<close> paginates (lines 68 to 126).\<close>

definition filteredTasks :: "int \<Rightarrow> TaskService \<Rightarrow> Filters \<Rightarrow> Task list" where
  "filteredTasks tz svc filters = sortTasks tz filters (applyFilters filters (taskValues svc))"

definition getTasks :: "int \<Rightarrow> TaskService \<Rightarrow> Filters \<Rightarrow> Pagination \<Rightarrow> error + TaskPage" where
  "getTasks tz svc filters pagination =
     (let filtered = filteredTasks tz svc filters;
          page = num_or_else (p_page pagination) 1;
          limit = num_or_else (p_limit pagination) 10;
          startIndex = (page - 1) * limit;
          endIndex = startIndex + limit;
          paginatedTasks = js_slice filtered startIndex endIndex
      in case mapToJSON paginatedTasks of
           Inl e \<Rightarrow> Inl e
         | Inr js \<Rightarrow>
             Inr \<lparr> r_tasks = js,
                   r_pagination =
                     \<lparr> pg_page = page, pg_limit = limit,
                       pg_total = int (length filtered),
                       pg_totalPages = \<lceil>real (length filtered) / real_of_int limit\<rceil>,
                       pg_hasNext = (endIndex < int (length filtered)),
                       pg_hasPrev = (page > 1) \<rparr> \<rparr>)"

section \<open>Statistics (TaskService.getTaskStats and backend/routes/stats.js)\<close>





text \<open>
  JavaScript numbers are IEEE 754 doubles, and \<open>/\<close> and \<open>*\<close> round their exact result
  to the nearest double, to the one with the even significand of two. \<open>toDouble\<close> is
  that rounding for the normal range (no overflow, no subnormal numbers: the values
  rounded here lie between \<open>2\<^sup>-\<^sup>3\<^sup>2\<close> and 200): \<open>expo x\<close> is the exponent \<open>e\<close> with
  \<open>2\<^sup>e \<le> x < 2\<^sup>e\<^sup>+\<^sup>1\<close>, and the significand has 53 bits. Counts are integers below
  \<open>2\<^sup>5\<^sup>3\<close> and are doubles as they are.
\<close>

definition pow2 :: "int \<Rightarrow> real" where
  "pow2 k = (if 0 \<le> k then 2 ^ nat k else 1 / 2 ^ nat (- k))"

definition expo :: "real \<Rightarrow> int" where
  "expo x = (if 1 \<le> x then int (floorlog 2 (nat \<lfloor>x\<rfloor>)) - 1
             else - int (floorlog 2 (nat (\<lceil>1 / x\<rceil> - 1))))"

definition roundEven :: "real \<Rightarrow> int" where
  "roundEven q = (let f = \<lfloor>q\<rfloor>
     in if q - real_of_int f < 1 / 2 then f
        else if 1 / 2 < q - real_of_int f then f + 1
        else if even f then f else f + 1)"

definition toDouble :: "real \<Rightarrow> real" where
  "toDouble x = (if x = 0 then 0
     else sgn x * real_of_int (roundEven (\<bar>x\<bar> / pow2 (expo \<bar>x\<bar> - 52))) * pow2 (expo \<bar>x\<bar> - 52))"

text \<open>
  A completion rate is the number 0 or the string that \<open>toFixed(1)\<close> returns.
  \<open>RateFixed n\<close> stands for the decimal string of \<open>n / 10\<close> with one fractional digit
  (\<open>RateFixed 333\<close> is \<open>"33.3"\<close>). \<open>toFixed(1)\<close> picks the integer \<open>n\<close> for which
  \<open>n / 10\<close> is nearest to the exact value of its argument, the larger one of two; the
  sign is handled apart. The argument is the double that line 249 computes: the
  quotient rounded, then its product with 100 rounded.
\<close>

datatype rate = RateZero | RateFixed int

definition toFixed1 :: "real \<Rightarrow> int" where
  "toFixed1 x = (if x < 0 then - \<lfloor>- x * 10 + 1 / 2\<rfloor> else \<lfloor>x * 10 + 1 / 2\<rfloor>)"

definition completionRateOf :: "nat \<Rightarrow> nat \<Rightarrow> rate" where
  "completionRateOf finished n =
     (if n > 0 then RateFixed (toFixed1 (toDouble (toDouble (real finished / real n) * 100)))
      else RateZero)"




text \<open>
  GET /api/stats/tags. \<open>tagCounts\<close> is a plain object, \<open>{}\<close>, used as a dictionary.
  Its own properties are an association list in the order of their creation; a value is
  a number, or a string once \<open>+ 1\<close> has been applied to an inherited value.
  \<^item> \<open>tagCounts[tag]\<close> reads the own property, else the inherited value for a name of
    \<open>Object.prototype\<close>, else \<open>undefined\<close>.
  \<^item> \<open>(v || 0) + 1\<close> is 1 for \<open>undefined\<close>, the next number for a number, and the
    text with the digit 1 appended for a function, an object or a string.
  \<^item> The assignment creates or overwrites the own property, except for the key
    \<open>__proto__\<close>: that is the inherited setter, which ignores a value that is no object.
  \<^item> \<open>Object.entries\<close> and \<open>Object.keys\<close> list the keys that are array indices first,
    in ascending order, and then the other keys in the order of their creation.
\<close>

datatype jsval = Num nat | Str string

definition bumpTag :: "(string \<times> jsval) list \<Rightarrow> string \<Rightarrow> (string \<times> jsval) list" where
  "bumpTag tagCounts tag =
     (let current =
            (case map_of tagCounts tag of
               Some v \<Rightarrow> Some v
             | None \<Rightarrow> if tag \<in> set objectPrototypeNames then Some (Str (inheritedText tag))
                        else None);
          next =
            (case current of
               None \<Rightarrow> Num 1
             | Some (Num n) \<Rightarrow> Num (n + 1)
             | Some (Str s) \<Rightarrow> if s = [] then Num 1 else Str (s @ ''1''))
      in if tag = ''__proto__'' then tagCounts else AList.update tag next tagCounts)"

definition countTags :: "TaskJSON list \<Rightarrow> (string \<times> jsval) list" where
  "countTags ts = foldl (\<lambda>tagCounts task. foldl bumpTag tagCounts (j_tags task)) [] ts"

definition isDigit :: "char \<Rightarrow> bool" where
  "isDigit c = (48 \<le> (of_char c :: int) \<and> (of_char c :: int) \<le> 57)"

definition digitsValue :: "string \<Rightarrow> int" where
  "digitsValue s = foldl (\<lambda>n c. 10 * n + (of_char c - 48)) 0 s"

text \<open>An array index is the decimal numeral, without leading zeros, of a number below
  \<open>2\<^sup>3\<^sup>2 - 1\<close>.\<close>

definition isArrayIndex :: "string \<Rightarrow> bool" where
  "isArrayIndex s =
     (case s of
        [] \<Rightarrow> False
      | c # cs \<Rightarrow>
          list_all isDigit s \<and> (if c = CHR ''0'' then cs = [] else True)
          \<and> digitsValue s < 4294967295)"

definition objectEntries :: "(string \<times> 'a) list \<Rightarrow> (string \<times> 'a) list" where
  "objectEntries props =
     sort_key (\<lambda>p. digitsValue (fst p)) (filter (\<lambda>p. isArrayIndex (fst p)) props)
     @ filter (\<lambda>p. \<not> isArrayIndex (fst p)) props"

text \<open>\<open>b.count - a.count\<close>: the difference of two numbers; NaN when a count is a string,
  which \<open>sort\<close> takes as 0.\<close>

definition countDifference :: "jsval \<Rightarrow> jsval \<Rightarrow> int" where
  "countDifference b a = (case (b, a) of (Num y, Num x) \<Rightarrow> int y - int x | _ \<Rightarrow> 0)"

text \<open>The response: \<open>tagCounts\<close> with its keys in the order of \<open>Object.entries\<close>, in
  which \<open>JSON.stringify\<close> writes them.\<close>

record TagStats =
  totalTags :: nat
  tagCounts :: "(string \<times> jsval) list"
  tagStats :: "(string \<times> jsval) list"

definition tagsHandler :: "int \<Rightarrow> TaskService \<Rightarrow> error + TagStats" where
  "tagsHandler tz svc =
     (case getTasks tz svc noFilters noPagination of
        Inl e \<Rightarrow> Inl e
      | Inr result \<Rightarrow>
          (let tc = countTags (r_tasks result)
           in Inr \<lparr> totalTags = length (objectEntries tc), tagCounts = objectEntries tc,
                    tagStats = sortWith (\<lambda>a b. countDifference (snd b) (snd a))
                                 (objectEntries tc) \<rparr>))"

text \<open>
  GET /api/stats/completion-trend. The key of \<open>tasksByDate\<close> is the date part of the
  ISO string of \<open>createdAt\<close>, the calendar day in UTC; it is represented by the number
  of that day, counted from the epoch. (Such a key contains a hyphen: it is no array
  index and no name of \<open>Object.prototype\<close>, so this object behaves as a dictionary in
  the order of creation.)
\<close>

definition utcDay :: "instant \<Rightarrow> int" where
  "utcDay ms = ms div 86400000"

definition addToDay :: "(int \<times> nat \<times> nat) list \<Rightarrow> TaskJSON \<Rightarrow> (int \<times> nat \<times> nat) list" where
  "addToDay tasksByDate task =
     (let date = utcDay (j_createdAt task)
      in case (case map_of tasksByDate date of None \<Rightarrow> (0, 0) | Some s \<Rightarrow> s) of
           (n, finished) \<Rightarrow>
             AList.update date (n + 1, if j_status task = ''completed'' then finished + 1 else finished)
               tasksByDate)"

record TrendRow =
  tr_date :: int
  tr_total :: nat
  tr_completed :: nat
  tr_completionRate :: rate

record Trend =
  trendData :: "TrendRow list"
  totalDays :: nat

definition trendHandler :: "int \<Rightarrow> TaskService \<Rightarrow> error + Trend" where
  "trendHandler tz svc =
     (case getTasks tz svc noFilters noPagination of
        Inl e \<Rightarrow> Inl e
      | Inr result \<Rightarrow>
          (let tasksByDate = foldl addToDay [] (r_tasks result);
               rows = sortWith (\<lambda>a b. tr_date a - tr_date b)
                        (map (\<lambda>(date, n, finished).
                                \<lparr> tr_date = date, tr_total = n, tr_completed = finished,
                                  tr_completionRate = completionRateOf finished n \<rparr>) tasksByDate)
           in Inr \<lparr> trendData = rows, totalDays = length rows \<rparr>))"

section \<open>Predicates and examples used by the theorems\<close>

text \<open>
  A task can be serialised when none of its three dates is an invalid date. The
  constructor and \<open>update\<close> store only valid due dates in a task that passes
  validation, and the clock gives valid timestamps.
\<close>

definition validDates :: "Task \<Rightarrow> bool" where
  "validDates t = (dueDate t \<noteq> Some InvalidDate \<and> createdAt t \<noteq> InvalidDate \<and> updatedAt t \<noteq> InvalidDate)"

text \<open>
  The key by which the comparator of \<open>dueDate\<close> orders tasks whose due date is
  absent or valid.
\<close>

definition dueKey :: "int \<Rightarrow> Task \<Rightarrow> int" where
  "dueKey tz t = (case dueDate t of Some (Instant d) \<Rightarrow> d | _ \<Rightarrow> farFuture tz)"

text \<open>
  What the specification means by a case-insensitive match, said without
  \<open>toLowerCase\<close>. The letters that have two cases are listed, each upper-case letter
  with its lower-case form: the 26 letters of the alphabet, and the accented letters of
  ISO 8859-1 (192 to 214 and 216 to 222, with 224 to 246 and 248 to 254). Two
  characters are the same letter when they are equal or the two cases of one letter;
  two strings are equal up to case when they have the same length and the same letters
  at each position; and a string contains a term when one of its contiguous parts is
  equal to the term up to case.
\<close>

definition spec_letterCases :: "(char \<times> char) list" where
  "spec_letterCases =
     zip (''ABCDEFGHIJKLMNOPQRSTUVWXYZ'' @ map char_of [192 .. 214 :: int] @ map char_of [216 .. 222 :: int])
         (''abcdefghijklmnopqrstuvwxyz'' @ map char_of [224 .. 246 :: int] @ map char_of [248 .. 254 :: int])"

definition spec_sameLetter :: "char \<Rightarrow> char \<Rightarrow> bool" where
  "spec_sameLetter c d =
     (c = d \<or> (c, d) \<in> set spec_letterCases \<or> (d, c) \<in> set spec_letterCases)"

definition spec_equalIgnoringCase :: "string \<Rightarrow> string \<Rightarrow> bool" where
  "spec_equalIgnoringCase s t = list_all2 spec_sameLetter s t"

definition spec_containsIgnoringCase :: "string \<Rightarrow> string \<Rightarrow> bool" where
  "spec_containsIgnoringCase hay term =
     (\<exists>before part after. hay = before @ part @ after \<and> spec_equalIgnoringCase part term)"

text \<open>
  Example stores, each built by calls of \<open>createTask\<close> on the empty store.
\<close>

definition newTaskData :: "string \<Rightarrow> string \<Rightarrow> string \<Rightarrow> date_arg \<Rightarrow> string list \<Rightarrow> TaskData" where
  "newTaskData t s p due tgs =
     \<lparr> d_id = None, d_title = Some t, d_description = None, d_status = Some s,
       d_priority = Some p, d_dueDate = Some due, d_tags = Some (TagArray tgs), d_createdAt = None \<rparr>"

definition threeTasks :: TaskService where
  "threeTasks =
     (let s1 = snd (createTask emptyService
                 (newTaskData ''Gamma'' ''in_progress'' ''medium'' DateFalsy [''work'', ''urgent''])
                 ''id-3'' 2000 2000);
          s2 = snd (createTask s1
                 (newTaskData ''Alpha'' ''completed'' ''high'' (DateValue (Instant 1000)) [''work''])
                 ''id-1'' 2000 2000);
          s3 = snd (createTask s2
                 (newTaskData ''beta'' ''todo'' ''low'' (DateValue (Instant 3000)) [''home''])
                 ''id-2'' 2000 2000)
      in s3)"

definition taskGamma :: Task where
  "taskGamma = \<lparr> taskId = ''id-3'', title = ''Gamma'', description = [], status = ''in_progress'',
      priority = ''medium'', dueDate = None, tags = [''work'', ''urgent''],
      createdAt = Instant 2000, updatedAt = Instant 2000 \<rparr>"

definition taskAlpha :: Task where
  "taskAlpha = \<lparr> taskId = ''id-1'', title = ''Alpha'', description = [], status = ''completed'',
      priority = ''high'', dueDate = Some (Instant 1000), tags = [''work''],
      createdAt = Instant 2000, updatedAt = Instant 2000 \<rparr>"

definition taskBeta :: Task where
  "taskBeta = \<lparr> taskId = ''id-2'', title = ''beta'', description = [], status = ''todo'',
      priority = ''low'', dueDate = Some (Instant 3000), tags = [''home''],
      createdAt = Instant 2000, updatedAt = Instant 2000 \<rparr>"

definition lateStore :: TaskService where
  "lateStore =
     (let s1 = snd (createTask emptyService
                 (newTaskData ''last day'' ''todo'' ''low'' (DateValue (Instant 253402257600000)) [])
                 ''id-late'' 2000 2000);
          s2 = snd (createTask s1
                 (newTaskData ''no deadline'' ''todo'' ''low'' DateFalsy [])
                 ''id-none'' 2000 2000)
      in s2)"

definition dupTagStore :: TaskService where
  "dupTagStore = snd (createTask emptyService
                 (newTaskData ''tagged twice'' ''todo'' ''low'' DateFalsy [''a'', ''a''])
                 ''id-dup'' 2000 2000)"

text \<open>A task whose title is the word Ecole with an acute accent on its first letter
  (code unit 201, the upper-case letter; 233 is the lower-case one), and a task whose
  title has no such letter.\<close>

definition accentStore :: TaskService where
  "accentStore =
     (let s1 = snd (createTask emptyService
                 (newTaskData (CHR 0xC9 # ''cole'') ''todo'' ''low'' DateFalsy [])
                 ''id-e'' 2000 2000);
          s2 = snd (createTask s1
                 (newTaskData ''college'' ''todo'' ''low'' DateFalsy [])
                 ''id-c'' 2000 2000)
      in s2)"

definition addPlain :: "TaskService \<Rightarrow> string \<Rightarrow> TaskService" where
  "addPlain svc name = snd (createTask svc (newTaskData name ''todo'' ''low'' DateFalsy []) name 2000 2000)"

definition elevenTasks :: TaskService where
  "elevenTasks =
     snd (createTask
       (foldl addPlain emptyService
          [''t01'', ''t02'', ''t03'', ''t04'', ''t05'', ''t06'', ''t07'', ''t08'', ''t09'', ''t10''])
       (newTaskData ''t11'' ''completed'' ''low'' DateFalsy [''urgent'']) ''t11'' 2000 2000)"

section \<open>Auxiliary facts\<close>

subsection \<open>Serialisation, sorting and slicing\<close>

lemma toJSON_validDates: "validDates t \<Longrightarrow> \<exists>j. toJSON t = Inr j"
  by (auto simp: validDates_def toJSON_def split: option.splits jsdate.splits)

lemma toJSON_fields:
  "toJSON t = Inr j \<Longrightarrow>
     j_id j = taskId t \<and> j_title j = title t \<and> j_description j = description t \<and>
     j_status j = status t \<and> j_priority j = priority t \<and> j_tags j = tags t \<and>
     Instant (j_createdAt j) = createdAt t \<and> Instant (j_updatedAt j) = updatedAt t \<and>
     map_option Instant (j_dueDate j) = dueDate t"
  by (auto simp: toJSON_def split: option.splits jsdate.splits)

lemma mapToJSON_Inr: "mapToJSON xs = Inr js \<Longrightarrow> map toJSON xs = map Inr js"
  by (induction xs arbitrary: js) (auto split: sum.splits)

lemma mapToJSON_total: "\<forall>t\<in>set xs. validDates t \<Longrightarrow> \<exists>js. mapToJSON xs = Inr js"
proof (induction xs)
  case Nil
  then show ?case by simp
next
  case (Cons t ts)
  then obtain j js where "toJSON t = Inr j" "mapToJSON ts = Inr js"
    using toJSON_validDates by fastforce
  then show ?case by simp
qed

lemma mapToJSON_sources:
  "mapToJSON xs = Inr js \<Longrightarrow> j \<in> set js \<Longrightarrow> \<exists>t\<in>set xs. toJSON t = Inr j"
  by (induction xs arbitrary: js) (auto split: sum.splits)

lemma mapToJSON_error: "mapToJSON xs = Inl e \<Longrightarrow> e = RangeError"
  by (induction xs) (auto simp: toJSON_def split: sum.splits option.splits jsdate.splits)

lemma set_insertWith: "set (insertWith c x xs) = insert x (set xs)"
  by (induction xs) auto

lemma set_sortWith: "set (sortWith c xs) = set xs"
  by (induction xs) (auto simp: set_insertWith)

lemma length_insertWith: "length (insertWith c x xs) = Suc (length xs)"
  by (induction xs) auto

lemma length_sortWith: "length (sortWith c xs) = length xs"
  by (induction xs) (auto simp: length_insertWith)

lemma set_sortTasks: "set (sortTasks tz f ts) = set ts"
  by (simp add: sortTasks_def set_sortWith split: option.splits)

lemma length_sortTasks: "length (sortTasks tz f ts) = length ts"
  by (simp add: sortTasks_def length_sortWith split: option.splits)

lemma sorted_insertWith:
  fixes k :: "'a \<Rightarrow> int"
  assumes agree: "\<And>a b. a \<in> S \<Longrightarrow> b \<in> S \<Longrightarrow> (c a b \<le> 0) = (k a \<le> k b)"
    and "x \<in> S" "set xs \<subseteq> S" "sorted_wrt (\<lambda>a b. k a \<le> k b) xs"
  shows "sorted_wrt (\<lambda>a b. k a \<le> k b) (insertWith c x xs)"
  using assms(2-)
proof (induction xs)
  case Nil
  then show ?case by simp
next
  case (Cons y ys)
  show ?case
  proof (cases "c x y \<le> 0")
    case True
    with Cons.prems agree [of x y] have "k x \<le> k y" by simp
    with Cons.prems True show ?thesis by fastforce
  next
    case False
    with Cons.prems agree [of x y] have "k y \<le> k x" by simp
    moreover have "sorted_wrt (\<lambda>a b. k a \<le> k b) (insertWith c x ys)"
      using Cons by simp
    ultimately show ?thesis using Cons.prems False by (auto simp: set_insertWith)
  qed
qed

lemma sorted_sortWith:
  fixes k :: "'a \<Rightarrow> int"
  assumes agree: "\<And>a b. a \<in> S \<Longrightarrow> b \<in> S \<Longrightarrow> (c a b \<le> 0) = (k a \<le> k b)"
    and "set xs \<subseteq> S"
  shows "sorted_wrt (\<lambda>a b. k a \<le> k b) (sortWith c xs)"
  using assms(2)
proof (induction xs)
  case Nil
  then show ?case by simp
next
  case (Cons x xs)
  then have "sorted_wrt (\<lambda>a b. k a \<le> k b) (sortWith c xs)" by simp
  from sorted_insertWith [of S c k, OF agree _ _ this, of x] Cons.prems
  show ?case by (simp add: set_sortWith)
qed

lemma compare_dueDate_asc:
  assumes "dueDate a \<noteq> Some InvalidDate" "dueDate b \<noteq> Some InvalidDate" "ord \<noteq> Some ''desc''"
  shows "(compareTasks tz ''dueDate'' ord a b \<le> 0) = (dueKey tz a \<le> dueKey tz b)"
  using assms
  by (auto simp: compareTasks_def sortKey_def dueKey_def timeValue_def Let_def
      split: option.splits jsdate.splits)

lemma set_js_slice: "set (js_slice xs a b) \<subseteq> set xs"
  unfolding js_slice_def Let_def
  by (meson set_take_subset set_drop_subset subset_trans)

lemma js_slice_window:
  assumes "0 \<le> a" "0 \<le> n"
  shows "js_slice xs a (a + n) = take (nat n) (drop (nat a) xs)"
proof (cases "a \<le> int (length xs)")
  case True
  with assms show ?thesis
    unfolding js_slice_def Let_def
    by (auto simp: min_def take_all_iff nat_diff_distrib nat_le_iff intro!: arg_cong2[where f = take])
next
  case False
  with assms show ?thesis
    unfolding js_slice_def Let_def by (simp add: min_def)
qed

lemma ceiling_nat_div:
  assumes "0 < l"
  shows "l * (\<lceil>real n / real_of_int l\<rceil> - 1) < int n \<and> int n \<le> l * \<lceil>real n / real_of_int l\<rceil>"
proof -
  let ?c = "\<lceil>real n / real_of_int l\<rceil>"
  have pos: "0 < real_of_int l" using assms by simp
  have "real n / real_of_int l \<le> of_int ?c" by (rule le_of_int_ceiling)
  then have "real n \<le> of_int ?c * real_of_int l"
    using pos_divide_le_eq [OF pos] by blast
  then have up: "int n \<le> l * ?c"
    by (metis mult.commute of_int_le_iff of_int_mult of_int_of_nat_eq)
  have "of_int ?c - 1 < real n / real_of_int l" by linarith
  then have "(of_int ?c - 1) * real_of_int l < real n"
    using pos_less_divide_eq [OF pos] by blast
  then have "real_of_int ((?c - 1) * l) < real_of_int (int n)" by simp
  then have "(?c - 1) * l < int n" by (simp only: of_int_less_iff)
  then show ?thesis using up by (simp add: mult.commute)
qed

subsection \<open>Filtering and the result of the query\<close>

lemma set_applyFilters: "set (applyFilters f ts) \<subseteq> set ts"
  by (auto simp: applyFilters_def Let_def split: option.splits if_splits)

lemma set_filteredTasks: "set (filteredTasks tz svc f) \<subseteq> set (taskValues svc)"
  using set_applyFilters by (auto simp: filteredTasks_def set_sortTasks)

lemma in_stage:
  assumes "t \<in> set (case x of Some s \<Rightarrow> if P s then filter (Q s) ts else ts | None \<Rightarrow> ts)"
  shows "t \<in> set ts \<and> (\<forall>s. x = Some s \<and> P s \<longrightarrow> Q s t)"
  using assms by (cases x) (auto split: if_splits)

lemma in_applyFilters:
  assumes "t \<in> set (applyFilters f ts)"
  shows "(\<forall>s. f_status f = Some s \<and> s \<noteq> [] \<longrightarrow> status t = s)
       \<and> (\<forall>s. f_priority f = Some s \<and> s \<noteq> [] \<longrightarrow> priority t = s)
       \<and> (\<forall>q. f_search f = Some q \<and> q \<noteq> [] \<longrightarrow> matchesSearch (toLowerCase q) t)
       \<and> (\<forall>w. f_tags f = Some w \<and> w \<noteq> [] \<longrightarrow> matchesTags w t)"
proof -
  let ?ts1 = "case f_status f of Some s \<Rightarrow> if s \<noteq> [] then filter (\<lambda>t. status t = s) ts else ts | None \<Rightarrow> ts"
  let ?ts2 = "case f_priority f of Some p \<Rightarrow> if p \<noteq> [] then filter (\<lambda>t. priority t = p) ?ts1 else ?ts1 | None \<Rightarrow> ?ts1"
  let ?ts3 = "case f_search f of Some q \<Rightarrow> if q \<noteq> [] then filter (matchesSearch (toLowerCase q)) ?ts2 else ?ts2 | None \<Rightarrow> ?ts2"
  let ?ts4 = "case f_tags f of Some w \<Rightarrow> if length w > 0 then filter (matchesTags w) ?ts3 else ?ts3 | None \<Rightarrow> ?ts3"
  have "t \<in> set ?ts4" using assms unfolding applyFilters_def Let_def .
  from in_stage [OF this] have 4: "\<forall>w. f_tags f = Some w \<and> w \<noteq> [] \<longrightarrow> matchesTags w t" and "t \<in> set ?ts3"
    by simp_all
  from in_stage [OF this(2)] have 3: "\<forall>q. f_search f = Some q \<and> q \<noteq> [] \<longrightarrow> matchesSearch (toLowerCase q) t"
    and "t \<in> set ?ts2" by simp_all
  from in_stage [OF this(2)] have 2: "\<forall>s. f_priority f = Some s \<and> s \<noteq> [] \<longrightarrow> priority t = s"
    and "t \<in> set ?ts1" by simp_all
  from in_stage [OF this(2)] have 1: "\<forall>s. f_status f = Some s \<and> s \<noteq> [] \<longrightarrow> status t = s" by simp
  from 1 2 3 4 show ?thesis by blast
qed

lemma filteredTasks_noFilters: "filteredTasks tz svc noFilters = taskValues svc"
  by (simp add: filteredTasks_def sortTasks_def applyFilters_def noFilters_def)

lemma applyFilters_sort_fields:
  "applyFilters (f \<lparr> f_sortBy := x \<rparr>) = applyFilters f"
  "applyFilters (f \<lparr> f_sortOrder := y \<rparr>) = applyFilters f"
  by (simp_all add: applyFilters_def fun_eq_iff)

lemma compareTasks_default:
  assumes "sb \<notin> {''title'', ''priority'', ''dueDate'', ''createdAt''}"
  shows "compareTasks tz sb ord = compareTasks tz ''title'' ord"
proof -
  have "sortKey tz sb = sortKey tz ''title''"
    using assms by (auto simp: sortKey_def fun_eq_iff)
  then show ?thesis by (simp add: compareTasks_def fun_eq_iff)
qed

lemma compareTasks_not_desc:
  "ord \<noteq> Some ''desc'' \<Longrightarrow> compareTasks tz sb ord = compareTasks tz sb (Some ''asc'')"
  by (simp add: compareTasks_def fun_eq_iff)

lemma getTasks_window:
  assumes "getTasks tz svc f p = Inr r"
  shows "mapToJSON (js_slice (filteredTasks tz svc f)
           ((num_or_else (p_page p) 1 - 1) * num_or_else (p_limit p) 10)
           ((num_or_else (p_page p) 1 - 1) * num_or_else (p_limit p) 10 + num_or_else (p_limit p) 10))
         = Inr (r_tasks r)"
  using assms unfolding getTasks_def Let_def
  by (auto split: sum.splits)

lemma getTasks_sources:
  assumes "getTasks tz svc f p = Inr r" and "j \<in> set (r_tasks r)"
  shows "\<exists>t\<in>set (filteredTasks tz svc f). toJSON t = Inr j"
proof -
  from mapToJSON_sources [OF getTasks_window [OF assms(1)] assms(2)] obtain t
    where t: "t \<in> set (js_slice (filteredTasks tz svc f)
           ((num_or_else (p_page p) 1 - 1) * num_or_else (p_limit p) 10)
           ((num_or_else (p_page p) 1 - 1) * num_or_else (p_limit p) 10 + num_or_else (p_limit p) 10))"
      and j: "toJSON t = Inr j" by blast
  from t have "t \<in> set (filteredTasks tz svc f)" by (rule subsetD [OF set_js_slice])
  with j show ?thesis by (rule_tac bexI)
qed

lemma getTasks_total:
  assumes "\<forall>t\<in>set (taskValues svc). validDates t"
  shows "\<exists>r. getTasks tz svc f p = Inr r"
proof -
  let ?win = "js_slice (filteredTasks tz svc f) ((num_or_else (p_page p) 1 - 1) * num_or_else (p_limit p) 10)
     ((num_or_else (p_page p) 1 - 1) * num_or_else (p_limit p) 10 + num_or_else (p_limit p) 10)"
  have "set ?win \<subseteq> set (filteredTasks tz svc f)" by (rule set_js_slice)
  also have "\<dots> \<subseteq> set (taskValues svc)" by (rule set_filteredTasks)
  finally have "\<forall>t\<in>set ?win. validDates t" using assms by blast
  from mapToJSON_total [OF this] obtain js where "mapToJSON ?win = Inr js" ..
  then show ?thesis unfolding getTasks_def Let_def by simp
qed

lemma getTasks_default_small:
  assumes "getTasks tz svc noFilters noPagination = Inr r" "length (taskValues svc) \<le> 10"
  shows "map Inr (r_tasks r) = map toJSON (taskValues svc)"
proof -
  have "js_slice (taskValues svc) 0 10 = taskValues svc"
    using assms(2) by (simp add: js_slice_def Let_def)
  with getTasks_window [OF assms(1)] have "mapToJSON (taskValues svc) = Inr (r_tasks r)"
    by (simp add: filteredTasks_noFilters noPagination_def num_or_else_def)
  then show ?thesis by (rule mapToJSON_Inr [symmetric])
qed

lemma map_toJSON_tags:
  "map Inr js = map toJSON ts \<Longrightarrow> map j_tags js = map tags ts"
proof (induction ts arbitrary: js)
  case Nil
  then show ?case by simp
next
  case (Cons t ts)
  then obtain j js' where js: "js = j # js'" by (cases js) auto
  with Cons.prems have "toJSON t = Inr j" "map Inr js' = map toJSON ts" by simp_all
  with Cons.IH js toJSON_fields [of t j] show ?case by simp
qed

subsection \<open>Matching up to case\<close>

lemma letterCases_codes:
  "map (\<lambda>(u, l). (of_char u :: int, of_char l :: int)) spec_letterCases
     = map (\<lambda>n. (n, n + 32)) ([65 .. 90] @ [192 .. 214] @ [216 .. 222])"
  by (simp add: spec_letterCases_def)

lemma in_letterCases:
  "(c, d) \<in> set spec_letterCases \<longleftrightarrow> isUpperCase c \<and> (of_char d :: int) = of_char c + 32"
proof -
  have inj: "inj (\<lambda>(u, l). (of_char u :: int, of_char l :: int))"
    by (auto simp: inj_on_def)
  have "(c, d) \<in> set spec_letterCases
      \<longleftrightarrow> (of_char c :: int, of_char d :: int) \<in> (\<lambda>(u, l). (of_char u, of_char l)) ` set spec_letterCases"
    using inj_image_mem_iff [OF inj, of "(c, d)" "set spec_letterCases"] by simp
  also have "\<dots> \<longleftrightarrow> (of_char c :: int, of_char d :: int)
        \<in> set (map (\<lambda>n. (n, n + 32)) ([65 .. 90] @ [192 .. 214] @ [216 .. 222]))"
    unfolding letterCases_codes [symmetric] by simp
  also have "\<dots> \<longleftrightarrow> isUpperCase c \<and> (of_char d :: int) = of_char c + 32"
    unfolding set_map set_append set_upto by (auto simp: isUpperCase_def Let_def)
  finally show ?thesis .
qed

lemma of_char_toLowerChar:
  "(of_char (toLowerChar c) :: int) = (if isUpperCase c then of_char c + 32 else of_char c)"
  by (auto simp: toLowerChar_def isUpperCase_def Let_def take_bit_eq_mod)

lemma sameLetter_iff: "spec_sameLetter c d \<longleftrightarrow> toLowerChar c = toLowerChar d"
proof -
  have "toLowerChar c = toLowerChar d
      \<longleftrightarrow> (of_char (toLowerChar c) :: int) = of_char (toLowerChar d)"
    by simp
  also have "\<dots> \<longleftrightarrow> spec_sameLetter c d"
  proof -
    have eq: "c = d \<longleftrightarrow> (of_char c :: int) = of_char d" by simp
    show ?thesis
      unfolding of_char_toLowerChar spec_sameLetter_def in_letterCases eq
      by (auto simp: isUpperCase_def Let_def)
  qed
  finally show ?thesis by simp
qed

lemma equalIgnoringCase_iff: "spec_equalIgnoringCase s t \<longleftrightarrow> toLowerCase s = toLowerCase t"
proof -
  have "toLowerCase s = toLowerCase t \<longleftrightarrow> list_all2 (=) (map toLowerChar s) (map toLowerChar t)"
    by (simp add: toLowerCase_def list.rel_eq)
  also have "\<dots> \<longleftrightarrow> list_all2 (\<lambda>c d. toLowerChar c = toLowerChar d) s t"
    by (simp add: list.rel_map)
  finally show ?thesis
    by (simp add: spec_equalIgnoringCase_def sameLetter_iff [abs_def])
qed

lemma containsIgnoringCase_iff:
  "sublist (toLowerCase term) (toLowerCase hay) \<longleftrightarrow> spec_containsIgnoringCase hay term"
proof
  assume "sublist (toLowerCase term) (toLowerCase hay)"
  then obtain ps ss where "map toLowerChar hay = ps @ map toLowerChar term @ ss"
    by (auto simp: sublist_def toLowerCase_def)
  then have "\<exists>before rest. hay = before @ rest \<and> ps = map toLowerChar before
      \<and> map toLowerChar term @ ss = map toLowerChar rest"
    by (simp only: map_eq_append_conv)
  then obtain before rest where hay: "hay = before @ rest"
    and rest: "map toLowerChar rest = map toLowerChar term @ ss"
    by metis
  from rest have "\<exists>part after. rest = part @ after \<and> map toLowerChar term = map toLowerChar part
      \<and> ss = map toLowerChar after"
    by (simp only: map_eq_append_conv)
  then obtain part after where r: "rest = part @ after"
    and part: "map toLowerChar part = map toLowerChar term"
    by metis
  from part have "spec_equalIgnoringCase part term"
    by (simp add: equalIgnoringCase_iff toLowerCase_def)
  with hay r show "spec_containsIgnoringCase hay term"
    unfolding spec_containsIgnoringCase_def by blast
next
  assume "spec_containsIgnoringCase hay term"
  then obtain before part after where hay: "hay = before @ part @ after"
    and part: "toLowerCase part = toLowerCase term"
    unfolding spec_containsIgnoringCase_def equalIgnoringCase_iff by blast
  have "toLowerCase hay = toLowerCase before @ toLowerCase term @ toLowerCase after"
    unfolding hay part [symmetric] by (simp add: toLowerCase_def)
  then show "sublist (toLowerCase term) (toLowerCase hay)"
    unfolding sublist_def by blast
qed

subsection \<open>Counting\<close>

lemma bumpTag_other:
  assumes "t \<noteq> tag"
  shows "map_of (bumpTag m t) tag = map_of m tag"
  using assms by (simp add: bumpTag_def Let_def update_conv')

lemma bumpTag_same:
  assumes named: "tag \<notin> set objectPrototypeNames"
    and holds: "map_of m tag = (if k = 0 then None else Some (Num k))"
  shows "map_of (bumpTag m tag) tag = Some (Num (k + 1))"
proof -
  from named have "tag \<noteq> ''__proto__''"
    by (auto simp: objectPrototypeNames_def)
  with named holds show ?thesis
    by (simp add: bumpTag_def Let_def update_conv')
qed

lemma bumpTags_count:
  assumes named: "tag \<notin> set objectPrototypeNames"
  shows "map_of m tag = (if k = 0 then None else Some (Num k)) \<Longrightarrow>
     map_of (foldl bumpTag m ts) tag
       = (if k + count_list ts tag = 0 then None else Some (Num (k + count_list ts tag)))"
proof (induction ts arbitrary: m k)
  case Nil
  then show ?case by simp
next
  case (Cons t ts)
  show ?case
  proof (cases "t = tag")
    case True
    from bumpTag_same [OF named Cons.prems]
    have "map_of (bumpTag m t) tag = (if k + 1 = 0 then None else Some (Num (k + 1)))"
      using True by simp
    from Cons.IH [OF this] show ?thesis using True by simp
  next
    case False
    then have "map_of (bumpTag m t) tag = (if k = 0 then None else Some (Num k))"
      using Cons.prems by (simp add: bumpTag_other)
    from Cons.IH [OF this] show ?thesis using False by simp
  qed
qed

lemma bumpTasks_count:
  assumes named: "tag \<notin> set objectPrototypeNames"
  shows "map_of m tag = (if k = 0 then None else Some (Num k)) \<Longrightarrow>
     map_of (foldl (\<lambda>tc task. foldl bumpTag tc (j_tags task)) m js) tag
       = (if k + sum_list (map (\<lambda>j. count_list (j_tags j) tag) js) = 0 then None
          else Some (Num (k + sum_list (map (\<lambda>j. count_list (j_tags j) tag) js))))"
proof (induction js arbitrary: m k)
  case Nil
  then show ?case by simp
next
  case (Cons j js)
  from Cons.IH [OF bumpTags_count [OF named Cons.prems, of "j_tags j"]]
  show ?case by (simp add: add.assoc)
qed

lemma countTags_count:
  assumes "tag \<notin> set objectPrototypeNames"
  shows "map_of (countTags js) tag
       = (if sum_list (map (\<lambda>j. count_list (j_tags j) tag) js) = 0 then None
          else Some (Num (sum_list (map (\<lambda>j. count_list (j_tags j) tag) js))))"
  using bumpTasks_count [OF assms, of "[]" 0 js] by (simp add: countTags_def)

lemma distinct_bumpTag: "distinct (map fst m) \<Longrightarrow> distinct (map fst (bumpTag m t))"
  by (simp add: bumpTag_def Let_def distinct_update)

lemma distinct_bumpTags: "distinct (map fst m) \<Longrightarrow> distinct (map fst (foldl bumpTag m ts))"
  by (induction ts arbitrary: m) (simp_all add: distinct_bumpTag)

lemma distinct_countTags: "distinct (map fst (countTags js))"
proof -
  have "distinct (map fst m) \<Longrightarrow>
      distinct (map fst (foldl (\<lambda>tc task. foldl bumpTag tc (j_tags task)) m js))" for m
    by (induction js arbitrary: m) (simp_all add: distinct_bumpTags)
  from this [of "[]"] show ?thesis by (simp add: countTags_def)
qed

lemma set_objectEntries: "set (objectEntries m) = set m"
  by (auto simp: objectEntries_def)

lemma distinct_objectEntries:
  assumes "distinct (map fst m)"
  shows "distinct (map fst (objectEntries m))"
proof -
  from assms have d: "distinct m" and i: "inj_on fst (set m)"
    by (simp_all add: distinct_map)
  have "distinct (objectEntries m)"
    using d by (auto simp: objectEntries_def)
  moreover have "inj_on fst (set (objectEntries m))"
    using i by (simp add: set_objectEntries)
  ultimately show ?thesis by (simp add: distinct_map)
qed

lemma map_of_objectEntries:
  assumes "distinct (map fst m)"
  shows "map_of (objectEntries m) = map_of m"
  using map_of_inject_set [OF distinct_objectEntries [OF assms] assms]
  by (simp add: set_objectEntries)

lemma sum_count_zero:
  "sum_list (map (\<lambda>t. count_list (g t) x) ts) = 0 \<longleftrightarrow> \<not> (\<exists>t\<in>set ts. x \<in> set (g t))"
  by (induction ts) (auto simp: count_list_0_iff)

lemma bumpTag_inherited:
  "bumpTag [] ''constructor'' = [(''constructor'', Str ''function Object() { [native code] }1'')]"
  by code_simp

lemma bumpTag_proto: "bumpTag [(''a'', Num 1)] ''__proto__'' = [(''a'', Num 1)]"
  by code_simp

lemma objectEntries_indices_first:
  "objectEntries [(''b'', Num 1), (''10'', Num 1), (''9'', Num 2), (''07'', Num 1)]
     = [(''9'', Num 2), (''10'', Num 1), (''b'', Num 1), (''07'', Num 1)]"
  by code_simp

lemma count_list_distinct: "distinct xs \<Longrightarrow> count_list xs x = (if x \<in> set xs then 1 else 0)"
  by (induction xs) auto

lemma sum_count_distinct:
  "\<forall>t\<in>set ts. distinct (g t) \<Longrightarrow>
     sum_list (map (\<lambda>t. count_list (g t) x) ts) = length (filter (\<lambda>t. x \<in> set (g t)) ts)"
  by (induction ts) (simp_all add: count_list_distinct)


subsection \<open>Rounding to doubles\<close>











lemma completionRateOf_tie: "completionRateOf 23 80 = RateFixed 287"
  by code_simp

lemma completionRateOf_third: "completionRateOf 1 3 = RateFixed 333"
  by code_simp

subsection \<open>Create and update\<close>

lemma createTask_Inr:
  assumes "createTask svc data uuid now1 now2 = (Inr j, svc')"
  shows "\<exists>t. Task_new data uuid now1 now2 = Inr t \<and> toJSON t = Inr j
     \<and> svc' = svc \<lparr> objects := (objects svc)(nextRef svc \<mapsto> t),
                     tasks := AList.update (taskId t) (nextRef svc) (tasks svc),
                     nextRef := Suc (nextRef svc) \<rparr>"
  using assms by (cases "Task_new data uuid now1 now2") (auto simp: createTask_def Let_def)

lemma Task_new_fields:
  assumes "Task_new data uuid now1 now2 = Inr t"
  shows "taskId t = or_else (d_id data) uuid"
    and "createdAt t = (case d_createdAt data of None \<Rightarrow> Instant now1 | Some c \<Rightarrow> c)"
    and "updatedAt t = Instant now2"
  using assms by (auto simp: Task_new_def Let_def split: if_splits)

lemma updateTask_Inr:
  assumes "updateTask svc i data now = (Inr j, svc')"
  shows "\<exists>r t. map_of (tasks svc) i = Some r \<and> objects svc r = Some t
     \<and> toJSON (assignFields data now t) = Inr j"
proof -
  from assms obtain r where r: "map_of (tasks svc) i = Some r"
    by (cases "map_of (tasks svc) i") (auto simp: updateTask_def)
  from assms r obtain t where t: "objects svc r = Some t"
    by (cases "objects svc r") (auto simp: updateTask_def Task_update_def)
  from assms r t have "toJSON (assignFields data now t) = Inr j"
    by (auto simp: updateTask_def Task_update_def Let_def split: if_splits)
  with r t show ?thesis by blast
qed

subsection \<open>The example stores, evaluated\<close>

lemmas model_defs = createTask_def Task_new_def newTaskData_def noData_def or_else_def
  validate_def trim_def isSpace_def validStatuses_def validPriorities_def emptyService_def
  newDueDate_def newTags_def Let_def

lemmas task_defs = taskGamma_def taskAlpha_def taskBeta_def

lemmas query_defs = getTasks_def filteredTasks_def applyFilters_def noFilters_def
   sortTasks_def noPagination_def num_or_else_def js_slice_def compareTasks_def sortKey_def
   toLowerCase_def toLowerChar_def toJSON_def timeValue_def farFuture_def priorityOrder_def Let_def

lemma oneTask_eq:
  "oneTask = \<lparr> objects = [0 \<mapsto> \<lparr> taskId = ''id-1'', title = ''write report'', description = [],
                               status = ''todo'', priority = ''medium'', dueDate = None, tags = [],
                               createdAt = Instant 1000, updatedAt = Instant 1000 \<rparr>],
               tasks = [(''id-1'', 0)], nextRef = 1 \<rparr>"
  by (simp add: oneTask_def createTask_def Task_new_def noData_def or_else_def validate_def
      trim_def isSpace_def validStatuses_def validPriorities_def emptyService_def Let_def)

lemma threeTasks_values: "taskValues threeTasks = [taskGamma, taskAlpha, taskBeta]"
  by (simp add: threeTasks_def model_defs taskValues_def List.map_filter_def
      taskGamma_def taskAlpha_def taskBeta_def)

lemma threeTasks_valid: "\<forall>t\<in>set (taskValues threeTasks). validDates t"
  by (simp add: threeTasks_values validDates_def taskGamma_def taskAlpha_def taskBeta_def)

lemma threeTasks_small: "length (taskValues threeTasks) \<le> 10"
  by (simp add: threeTasks_values)

lemma threeTasks_byDue:
  "filteredTasks 0 threeTasks (noFilters \<lparr> f_sortBy := Some ''dueDate'', f_sortOrder := Some ''asc'' \<rparr>)
     = [taskAlpha, taskBeta, taskGamma]"
  by (simp add: threeTasks_values query_defs task_defs)


lemma lateStore_values:
  "taskValues lateStore =
     [\<lparr> taskId = ''id-late'', title = ''last day'', description = [], status = ''todo'',
        priority = ''low'', dueDate = Some (Instant 253402257600000), tags = [],
        createdAt = Instant 2000, updatedAt = Instant 2000 \<rparr>,
      \<lparr> taskId = ''id-none'', title = ''no deadline'', description = [], status = ''todo'',
        priority = ''low'', dueDate = None, tags = [],
        createdAt = Instant 2000, updatedAt = Instant 2000 \<rparr>]"
  by (simp add: lateStore_def model_defs taskValues_def List.map_filter_def)

lemma dupTagStore_values:
  "taskValues dupTagStore =
     [\<lparr> taskId = ''id-dup'', title = ''tagged twice'', description = [], status = ''todo'',
        priority = ''low'', dueDate = None, tags = [''a'', ''a''],
        createdAt = Instant 2000, updatedAt = Instant 2000 \<rparr>]"
  by (simp add: dupTagStore_def model_defs taskValues_def List.map_filter_def)

lemma todo_query:
  "map_sum id (\<lambda>r. map j_title (r_tasks r))
     (getTasks 0 threeTasks
        (noFilters \<lparr> f_status := Some ''todo'', f_search := Some ''BET'', f_tags := Some [''home'', ''garden''] \<rparr>)
        noPagination)
   = Inr [''beta'']"
  by code_simp

lemma create_plain:
  "createTask emptyService (noData \<lparr> d_title := Some ''write report'' \<rparr>) ''id-1'' 1000 1000
     = (Inr \<lparr> j_id = ''id-1'', j_title = ''write report'', j_description = [], j_status = ''todo'',
              j_priority = ''medium'', j_dueDate = None, j_tags = [], j_createdAt = 1000,
              j_updatedAt = 1000 \<rparr>, oneTask)"
  by (simp add: oneTask_def model_defs toJSON_def)

lemma oneTask_get:
  "getTaskById oneTask ''id-1''
     = Inr \<lparr> j_id = ''id-1'', j_title = ''write report'', j_description = [], j_status = ''todo'',
             j_priority = ''medium'', j_dueDate = None, j_tags = [], j_createdAt = 1000,
             j_updatedAt = 1000 \<rparr>"
  by (simp add: oneTask_eq getTaskById_def toJSON_def)

lemma oneTask_complete:
  "fst (updateTask oneTask ''id-1'' (noData \<lparr> d_status := Some ''completed'' \<rparr>) 5000)
     = Inr \<lparr> j_id = ''id-1'', j_title = ''write report'', j_description = [], j_status = ''completed'',
             j_priority = ''medium'', j_dueDate = None, j_tags = [], j_createdAt = 1000,
             j_updatedAt = 5000 \<rparr>"
  by (simp add: oneTask_eq updateTask_def Task_update_def assignFields_def noData_def
      validate_def trim_def isSpace_def validStatuses_def validPriorities_def toJSON_def Let_def)

lemma oneTask_recreate:
  "fst (createTask oneTask (noData \<lparr> d_id := Some ''id-1'', d_title := Some ''rewritten'' \<rparr>)
          ''fresh-uuid'' 3000 3000)
     = Inr \<lparr> j_id = ''id-1'', j_title = ''rewritten'', j_description = [], j_status = ''todo'',
             j_priority = ''medium'', j_dueDate = None, j_tags = [], j_createdAt = 3000,
             j_updatedAt = 3000 \<rparr>"
  by (simp add: model_defs toJSON_def)

lemma accentStore_values:
  "taskValues accentStore =
     [\<lparr> taskId = ''id-e'', title = CHR 0xC9 # ''cole'', description = [], status = ''todo'',
         priority = ''low'', dueDate = None, tags = [],
         createdAt = Instant 2000, updatedAt = Instant 2000 \<rparr>,
      \<lparr> taskId = ''id-c'', title = ''college'', description = [], status = ''todo'',
         priority = ''low'', dueDate = None, tags = [],
         createdAt = Instant 2000, updatedAt = Instant 2000 \<rparr>]"
  by (simp add: accentStore_def model_defs taskValues_def List.map_filter_def)

lemma accentStore_valid: "\<forall>t\<in>set (taskValues accentStore). validDates t"
  by (simp add: accentStore_values validDates_def)

lemma accent_query:
  "map_sum id (\<lambda>r. map j_title (r_tasks r))
     (getTasks 0 accentStore (noFilters \<lparr> f_search := Some (CHR 0xE9 # ''COLE'') \<rparr>) noPagination)
   = Inr [CHR 0xC9 # ''cole'']"
  by code_simp

section \<open>The claims\<close>

text \<open>
  C1. An update that fails validation is to leave the stored record as it was,
  \<open>updatedAt\<close> included. The code assigns the fields of the stored object and
  refreshes \<open>updatedAt\<close> before it validates: updating the task of \<open>oneTask\<close> with
  the status \<open>bogus\<close> at time 5000 throws the validation error, and the stored task
  then has the status \<open>bogus\<close> and \<open>updatedAt\<close> 5000.
\<close>

theorem updateTask_failure_mutates:
  "fst (updateTask oneTask ''id-1'' (noData \<lparr> d_status := Some ''bogus'' \<rparr>) 5000)
     = Inl (ValidationFailed [BadStatus])
   \<and> map status (taskValues oneTask) = [''todo'']
   \<and> map updatedAt (taskValues oneTask) = [Instant 1000]
   \<and> map status (taskValues (snd (updateTask oneTask ''id-1'' (noData \<lparr> d_status := Some ''bogus'' \<rparr>) 5000)))
       = [''bogus'']
   \<and> map updatedAt (taskValues (snd (updateTask oneTask ''id-1'' (noData \<lparr> d_status := Some ''bogus'' \<rparr>) 5000)))
       = [Instant 5000]"
  by (simp add: oneTask_eq updateTask_def Task_update_def assignFields_def noData_def
      validate_def trim_def isSpace_def validStatuses_def validPriorities_def taskValues_def
      List.map_filter_def Let_def)

text \<open>
  C2. The count reported for a tag is the number of its occurrences, not the number of
  tasks that carry it: the handler adds one for every element of every \<open>tags\<close> array.
  For a store of at most ten tasks (the page that the handler reads) and a tag that is
  no name of a property of \<open>Object.prototype\<close>, every answer of the handler reports
  for the tag the sum of its occurrences over all tasks, and nothing for a tag that
  does not occur; \<open>tagStats\<close> holds the entries of \<open>tagCounts\<close>, each tag once; the keys
  of \<open>tagCounts\<close> include the tag exactly when some task carries it; and the count is the
  number of tasks carrying the tag when no task lists a tag twice. The handler answers
  when every stored task has valid dates.
\<close>

theorem tagCounts_occurrences:
  assumes small: "length (taskValues svc) \<le> 10"
    and named: "tag \<notin> set objectPrototypeNames"
  shows "(\<forall>r. tagsHandler tz svc = Inr r \<longrightarrow>
        map_of (tagCounts r) tag
          = (if sum_list (map (\<lambda>t. count_list (tags t) tag) (taskValues svc)) = 0 then None
             else Some (Num (sum_list (map (\<lambda>t. count_list (tags t) tag) (taskValues svc)))))
      \<and> distinct (map fst (tagCounts r))
      \<and> set (tagStats r) = set (tagCounts r)
      \<and> (tag \<in> fst ` set (tagCounts r) \<longleftrightarrow> (\<exists>t\<in>set (taskValues svc). tag \<in> set (tags t)))
      \<and> ((\<forall>t\<in>set (taskValues svc). distinct (tags t)) \<longrightarrow>
           map_of (tagCounts r) tag
             = (if length (filter (\<lambda>t. tag \<in> set (tags t)) (taskValues svc)) = 0 then None
                else Some (Num (length (filter (\<lambda>t. tag \<in> set (tags t)) (taskValues svc)))))))
   \<and> ((\<forall>t\<in>set (taskValues svc). validDates t) \<longrightarrow> (\<exists>r. tagsHandler tz svc = Inr r))"
proof -
  let ?occ = "sum_list (map (\<lambda>t. count_list (tags t) tag) (taskValues svc))"
  have "map_of (tagCounts r) tag = (if ?occ = 0 then None else Some (Num ?occ))
      \<and> distinct (map fst (tagCounts r))
      \<and> set (tagStats r) = set (tagCounts r)
      \<and> (tag \<in> fst ` set (tagCounts r) \<longleftrightarrow> (\<exists>t\<in>set (taskValues svc). tag \<in> set (tags t)))
      \<and> ((\<forall>t\<in>set (taskValues svc). distinct (tags t)) \<longrightarrow>
           map_of (tagCounts r) tag
             = (if length (filter (\<lambda>t. tag \<in> set (tags t)) (taskValues svc)) = 0 then None
                else Some (Num (length (filter (\<lambda>t. tag \<in> set (tags t)) (taskValues svc))))))"
    if res: "tagsHandler tz svc = Inr r" for r
  proof -
    from res obtain p where run: "getTasks tz svc noFilters noPagination = Inr p"
      by (cases "getTasks tz svc noFilters noPagination") (simp_all add: tagsHandler_def)
    let ?tc = "countTags (r_tasks p)"
    from res run have r: "r = \<lparr> totalTags = length (objectEntries ?tc), tagCounts = objectEntries ?tc,
        tagStats = sortWith (\<lambda>a b. countDifference (snd b) (snd a)) (objectEntries ?tc) \<rparr>"
      by (simp add: tagsHandler_def Let_def)
    have tc: "tagCounts r = objectEntries ?tc" by (simp add: r)
    have tags_eq: "map j_tags (r_tasks p) = map tags (taskValues svc)"
      using getTasks_default_small [OF run small] by (rule map_toJSON_tags)
    have "sum_list (map (\<lambda>j. count_list (j_tags j) tag) (r_tasks p))
        = sum_list (map (\<lambda>ts. count_list ts tag) (map j_tags (r_tasks p)))"
      by (simp add: comp_def)
    also have "\<dots> = ?occ"
      by (simp add: tags_eq comp_def)
    finally have occ: "sum_list (map (\<lambda>j. count_list (j_tags j) tag) (r_tasks p)) = ?occ" .
    have cnt: "map_of (tagCounts r) tag = (if ?occ = 0 then None else Some (Num ?occ))"
      unfolding tc map_of_objectEntries [OF distinct_countTags]
      using countTags_count [OF named, of "r_tasks p"] unfolding occ .
    have dist: "distinct (map fst (tagCounts r))"
      unfolding tc by (rule distinct_objectEntries [OF distinct_countTags])
    have stats: "set (tagStats r) = set (tagCounts r)"
      by (simp add: r set_sortWith)
    have "tag \<in> fst ` set (tagCounts r) \<longleftrightarrow> map_of (tagCounts r) tag \<noteq> None"
      by (simp add: map_of_eq_None_iff)
    also have "\<dots> \<longleftrightarrow> ?occ \<noteq> 0"
      unfolding cnt by simp
    also have "\<dots> \<longleftrightarrow> (\<exists>t\<in>set (taskValues svc). tag \<in> set (tags t))"
      using sum_count_zero [of tags tag "taskValues svc"] by simp
    finally have keys: "tag \<in> fst ` set (tagCounts r) \<longleftrightarrow> (\<exists>t\<in>set (taskValues svc). tag \<in> set (tags t))" .
    have once: "(\<forall>t\<in>set (taskValues svc). distinct (tags t)) \<longrightarrow>
           map_of (tagCounts r) tag
             = (if length (filter (\<lambda>t. tag \<in> set (tags t)) (taskValues svc)) = 0 then None
                else Some (Num (length (filter (\<lambda>t. tag \<in> set (tags t)) (taskValues svc)))))"
    proof
      assume "\<forall>t\<in>set (taskValues svc). distinct (tags t)"
      from sum_count_distinct [OF this, of tag]
      have "?occ = length (filter (\<lambda>t. tag \<in> set (tags t)) (taskValues svc))" .
      with cnt show "map_of (tagCounts r) tag
             = (if length (filter (\<lambda>t. tag \<in> set (tags t)) (taskValues svc)) = 0 then None
                else Some (Num (length (filter (\<lambda>t. tag \<in> set (tags t)) (taskValues svc)))))"
        by simp
    qed
    from cnt dist stats keys once show ?thesis by (intro conjI)
  qed
  moreover have "\<exists>r. tagsHandler tz svc = Inr r" if valid: "\<forall>t\<in>set (taskValues svc). validDates t"
  proof -
    obtain p where run: "getTasks tz svc noFilters noPagination = Inr p"
      using getTasks_total [OF valid] by blast
    then show ?thesis by (simp add: tagsHandler_def Let_def)
  qed
  ultimately show ?thesis by blast
qed

theorem tagCounts_occurrences_witness:
  "\<exists>r. tagsHandler 0 threeTasks = Inr r \<and> map_of (tagCounts r) ''work'' = Some (Num 2)
     \<and> ''work'' \<in> fst ` set (tagCounts r)"
proof -
  have named: "''work'' \<notin> set objectPrototypeNames"
    by (simp add: objectPrototypeNames_def)
  note inst = tagCounts_occurrences [OF threeTasks_small named, of 0]
  from inst have "(\<forall>t\<in>set (taskValues threeTasks). validDates t)
      \<longrightarrow> (\<exists>r. tagsHandler 0 threeTasks = Inr r)"
    by (rule conjunct2)
  then have "\<exists>r. tagsHandler 0 threeTasks = Inr r"
    using threeTasks_valid by (rule mp)
  then obtain r where r: "tagsHandler 0 threeTasks = Inr r" ..
  have sum: "sum_list (map (\<lambda>t. count_list (tags t) ''work'') (taskValues threeTasks)) = 2"
    by (simp add: threeTasks_values task_defs)
  have ex: "\<exists>t\<in>set (taskValues threeTasks). ''work'' \<in> set (tags t)"
    by (simp add: threeTasks_values task_defs)
  from inst r have "map_of (tagCounts r) ''work''
          = (if sum_list (map (\<lambda>t. count_list (tags t) ''work'') (taskValues threeTasks)) = 0 then None
             else Some (Num (sum_list (map (\<lambda>t. count_list (tags t) ''work'') (taskValues threeTasks)))))"
    and "''work'' \<in> fst ` set (tagCounts r) \<longleftrightarrow> (\<exists>t\<in>set (taskValues threeTasks). ''work'' \<in> set (tags t))"
    by blast+
  with sum ex r have "tagsHandler 0 threeTasks = Inr r \<and> map_of (tagCounts r) ''work'' = Some (Num 2)
     \<and> ''work'' \<in> fst ` set (tagCounts r)" by simp
  then show ?thesis ..
qed

text \<open>
  The claim as stated fails for a task that lists a tag twice: one task carries the tag
  \<open>a\<close>, and the count reported is 2.
\<close>

theorem tagCounts_per_task_counterexample:
  "tagsHandler 0 dupTagStore
     = Inr \<lparr> totalTags = 1, tagCounts = [(''a'', Num 2)], tagStats = [(''a'', Num 2)] \<rparr>
   \<and> length (filter (\<lambda>t. ''a'' \<in> set (tags t)) (taskValues dupTagStore)) = 1"
  by code_simp

text \<open>
  C3. Aggregation is to read every task of the store. Both handlers read the tasks
  through \<open>getTasks()\<close> with its default pagination, so they see the first ten tasks
  only. In \<open>elevenTasks\<close> the eleventh task carries the tag \<open>urgent\<close> and is
  completed; all eleven were created on day 0. The tag statistics are empty, and the
  trend counts ten tasks for day 0, none of them completed.
\<close>

theorem aggregation_reads_first_page:
  "map tags (taskValues elevenTasks) = [[], [], [], [], [], [], [], [], [], [], [''urgent'']]
   \<and> map (\<lambda>t. (createdAt t, status t)) (taskValues elevenTasks)
       = replicate 10 (Instant 2000, ''todo'') @ [(Instant 2000, ''completed'')]
   \<and> tagsHandler 0 elevenTasks = Inr \<lparr> totalTags = 0, tagCounts = [], tagStats = [] \<rparr>
   \<and> trendHandler 0 elevenTasks
       = Inr \<lparr> trendData = [\<lparr> tr_date = 0, tr_total = 10, tr_completed = 0,
                                  tr_completionRate = RateFixed 0 \<rparr>], totalDays = 1 \<rparr>"
  by code_simp

text \<open>
  C4. \<open>getTasks\<close> does not reject a sort field or a sort order it does not know: a
  non-empty \<open>sortBy\<close> outside the four fields takes the default branch and sorts by
  title, a \<open>sortOrder\<close> other than \<open>desc\<close> sorts ascending, and the function never
  reports a validation error.
\<close>

theorem getTasks_never_rejects_sort:
  "(sb \<noteq> [] \<and> sb \<notin> {''title'', ''priority'', ''dueDate'', ''createdAt''} \<longrightarrow>
      getTasks tz svc (f \<lparr> f_sortBy := Some sb \<rparr>) p = getTasks tz svc (f \<lparr> f_sortBy := Some ''title'' \<rparr>) p)
   \<and> (ord \<noteq> Some ''desc'' \<longrightarrow>
      getTasks tz svc (f \<lparr> f_sortOrder := ord \<rparr>) p = getTasks tz svc (f \<lparr> f_sortOrder := Some ''asc'' \<rparr>) p)
   \<and> getTasks tz svc f p \<noteq> Inl (ValidationFailed vs)"
proof (intro conjI impI)
  assume unknown: "sb \<noteq> [] \<and> sb \<notin> {''title'', ''priority'', ''dueDate'', ''createdAt''}"
  then have "filteredTasks tz svc (f \<lparr> f_sortBy := Some sb \<rparr>) = filteredTasks tz svc (f \<lparr> f_sortBy := Some ''title'' \<rparr>)"
    using compareTasks_default [of sb tz]
    by (simp add: filteredTasks_def sortTasks_def applyFilters_sort_fields)
  then show "getTasks tz svc (f \<lparr> f_sortBy := Some sb \<rparr>) p = getTasks tz svc (f \<lparr> f_sortBy := Some ''title'' \<rparr>) p"
    by (simp add: getTasks_def)
next
  assume "ord \<noteq> Some ''desc''"
  then have "filteredTasks tz svc (f \<lparr> f_sortOrder := ord \<rparr>) = filteredTasks tz svc (f \<lparr> f_sortOrder := Some ''asc'' \<rparr>)"
    using compareTasks_not_desc [of ord tz]
    by (simp add: filteredTasks_def sortTasks_def applyFilters_sort_fields split: option.splits)
  then show "getTasks tz svc (f \<lparr> f_sortOrder := ord \<rparr>) p = getTasks tz svc (f \<lparr> f_sortOrder := Some ''asc'' \<rparr>) p"
    by (simp add: getTasks_def)
next
  show "getTasks tz svc f p \<noteq> Inl (ValidationFailed vs)"
    using mapToJSON_error by (fastforce simp: getTasks_def Let_def split: sum.splits)
qed

theorem getTasks_never_rejects_sort_witness:
  "getTasks 0 threeTasks (noFilters \<lparr> f_sortBy := Some ''bogus'' \<rparr>) noPagination
     = getTasks 0 threeTasks (noFilters \<lparr> f_sortBy := Some ''title'' \<rparr>) noPagination
   \<and> getTasks 0 threeTasks (noFilters \<lparr> f_sortOrder := Some ''sideways'' \<rparr>) noPagination
     = getTasks 0 threeTasks (noFilters \<lparr> f_sortOrder := Some ''asc'' \<rparr>) noPagination"
proof -
  have a: "''bogus'' \<noteq> [] \<and> ''bogus'' \<notin> {''title'', ''priority'', ''dueDate'', ''createdAt''}"
    by simp
  have b: "Some ''sideways'' \<noteq> Some ''desc''" by simp
  note inst = getTasks_never_rejects_sort [of "''bogus''" 0 threeTasks noFilters noPagination "Some ''sideways''"]
  from inst a have 1: "getTasks 0 threeTasks (noFilters \<lparr> f_sortBy := Some ''bogus'' \<rparr>) noPagination
     = getTasks 0 threeTasks (noFilters \<lparr> f_sortBy := Some ''title'' \<rparr>) noPagination"
    by (rule conjunct1 [THEN mp])
  from inst b have 2: "getTasks 0 threeTasks (noFilters \<lparr> f_sortOrder := Some ''sideways'' \<rparr>) noPagination
     = getTasks 0 threeTasks (noFilters \<lparr> f_sortOrder := Some ''asc'' \<rparr>) noPagination"
    by (rule conjunct2 [THEN conjunct1, THEN mp])
  from 1 2 show ?thesis ..
qed

text \<open>
  The claim as stated fails: with \<open>sortBy = bogus\<close> and \<open>sortOrder = sideways\<close> the
  query returns the three tasks, ordered by title without regard to case.
\<close>

theorem getTasks_rejects_sort_counterexample:
  "map_sum id (\<lambda>r. map j_title (r_tasks r))
     (getTasks 0 threeTasks (noFilters \<lparr> f_sortBy := Some ''bogus'', f_sortOrder := Some ''sideways'' \<rparr>) noPagination)
   = Inr [''Alpha'', ''beta'', ''Gamma'']"
  by code_simp

text \<open>
  C5. For \<open>page \<ge> 1\<close> and \<open>1 \<le> limit \<le> 100\<close>, on a store whose tasks can be
  serialised, \<open>getTasks\<close> returns the slice from \<open>(page - 1) * limit\<close> of length at
  most \<open>limit\<close> of the filtered and sorted sequence; \<open>total\<close> is the number of tasks
  that pass the filters, \<open>totalPages\<close> is the ceiling of \<open>total / limit\<close>,
  \<open>hasNext\<close> holds iff \<open>page * limit < total\<close>, \<open>hasPrev\<close> iff \<open>page > 1\<close>, and a
  page beyond the range is the empty slice.
\<close>

theorem getTasks_pagination:
  assumes page: "1 \<le> page" and limit: "1 \<le> limit" "limit \<le> 100"
    and valid: "\<forall>t\<in>set (taskValues svc). validDates t"
  shows "\<exists>r. getTasks tz svc f \<lparr> p_page = Some page, p_limit = Some limit \<rparr> = Inr r
      \<and> map Inr (r_tasks r) =
          map toJSON (take (nat limit) (drop (nat ((page - 1) * limit)) (filteredTasks tz svc f)))
      \<and> pg_page (r_pagination r) = page \<and> pg_limit (r_pagination r) = limit
      \<and> pg_total (r_pagination r) = int (length (applyFilters f (taskValues svc)))
      \<and> pg_totalPages (r_pagination r) = \<lceil>real_of_int (pg_total (r_pagination r)) / real_of_int limit\<rceil>
      \<and> limit * (pg_totalPages (r_pagination r) - 1) < pg_total (r_pagination r)
      \<and> pg_total (r_pagination r) \<le> limit * pg_totalPages (r_pagination r)
      \<and> (pg_hasNext (r_pagination r) \<longleftrightarrow> page * limit < pg_total (r_pagination r))
      \<and> (pg_hasPrev (r_pagination r) \<longleftrightarrow> 1 < page)
      \<and> (pg_total (r_pagination r) \<le> (page - 1) * limit \<longrightarrow> r_tasks r = [])"
proof -
  let ?seq = "filteredTasks tz svc f"
  let ?start = "(page - 1) * limit"
  let ?win = "take (nat limit) (drop (nat ?start) ?seq)"
  have start: "0 \<le> ?start" using page limit by simp
  have slice: "js_slice ?seq ?start (?start + limit) = ?win"
    using js_slice_window [OF start, of limit ?seq] limit by simp
  have "set ?win \<subseteq> set (taskValues svc)"
    using set_filteredTasks [of tz svc f]
    by (meson set_take_subset set_drop_subset subset_trans)
  then have "\<forall>t\<in>set ?win. validDates t" using valid by blast
  then obtain js where js: "mapToJSON ?win = Inr js"
    using mapToJSON_total by blast
  have len: "length ?seq = length (applyFilters f (taskValues svc))"
    by (simp add: filteredTasks_def length_sortTasks)
  define r where "r = \<lparr> r_tasks = js,
      r_pagination = \<lparr> pg_page = page, pg_limit = limit, pg_total = int (length ?seq),
        pg_totalPages = \<lceil>real (length ?seq) / real_of_int limit\<rceil>,
        pg_hasNext = (?start + limit < int (length ?seq)), pg_hasPrev = (page > 1) \<rparr> \<rparr>"
  have run: "getTasks tz svc f \<lparr> p_page = Some page, p_limit = Some limit \<rparr> = Inr r"
    using page limit js slice by (simp add: getTasks_def num_or_else_def Let_def r_def)
  have tasks: "map Inr (r_tasks r) = map toJSON ?win"
    using mapToJSON_Inr [OF js] by (simp add: r_def)
  have next_eq: "?start + limit = page * limit" by (simp add: algebra_simps)
  have ceil: "limit * (pg_totalPages (r_pagination r) - 1) < pg_total (r_pagination r)
      \<and> pg_total (r_pagination r) \<le> limit * pg_totalPages (r_pagination r)"
    using ceiling_nat_div [of limit "length ?seq"] limit by (simp add: r_def)
  have beyond: "pg_total (r_pagination r) \<le> ?start \<longrightarrow> r_tasks r = []"
  proof
    assume "pg_total (r_pagination r) \<le> ?start"
    then have "length ?seq \<le> nat ?start" by (simp add: r_def)
    then have "?win = []" by simp
    with tasks show "r_tasks r = []" by simp
  qed
  show ?thesis
    using run tasks ceil beyond len next_eq by (intro exI [of _ r]) (simp add: r_def)
qed

theorem getTasks_pagination_witness:
  "\<exists>r. getTasks 0 threeTasks noFilters \<lparr> p_page = Some 2, p_limit = Some 2 \<rparr> = Inr r
     \<and> map Inr (r_tasks r) = [toJSON taskBeta]
     \<and> pg_total (r_pagination r) = 3 \<and> pg_totalPages (r_pagination r) = 2
     \<and> \<not> pg_hasNext (r_pagination r) \<and> pg_hasPrev (r_pagination r)"
proof -
  from getTasks_pagination [OF _ _ _ threeTasks_valid, of 2 2 0 noFilters]
  obtain r where r: "getTasks 0 threeTasks noFilters \<lparr> p_page = Some 2, p_limit = Some 2 \<rparr> = Inr r"
    "map Inr (r_tasks r) = map toJSON (take (nat 2) (drop (nat ((2 - 1) * 2)) (filteredTasks 0 threeTasks noFilters)))"
    "pg_total (r_pagination r) = int (length (applyFilters noFilters (taskValues threeTasks)))"
    "2 * (pg_totalPages (r_pagination r) - 1) < pg_total (r_pagination r)"
    "pg_total (r_pagination r) \<le> 2 * pg_totalPages (r_pagination r)"
    "pg_hasNext (r_pagination r) \<longleftrightarrow> 2 * 2 < pg_total (r_pagination r)"
    "pg_hasPrev (r_pagination r) \<longleftrightarrow> (1::int) < 2"
    by auto
  have total: "pg_total (r_pagination r) = 3"
    using r(3) by (simp add: threeTasks_values applyFilters_def noFilters_def)
  have pages: "pg_totalPages (r_pagination r) = 2" using r(4,5) total by arith
  have page: "map Inr (r_tasks r) = [toJSON taskBeta]"
    using r(2) by (simp add: filteredTasks_noFilters threeTasks_values)
  from r(1) page total pages r(6,7) show ?thesis by simp
qed

text \<open>
  C6. Every task of a page that \<open>getTasks\<close> returns is a task of the store that
  satisfies every active filter (a filter is active when its value is not empty): its
  status and its priority are the requested ones; the title, the description or some tag
  contains the search term, up to the case of the letters; and it carries one of the
  requested tags. On a store whose tasks can be serialised \<open>getTasks\<close> returns a page.
  Strings are strings of ISO 8859-1 characters.
\<close>

theorem getTasks_filters:
  "(\<forall>r. getTasks tz svc f p = Inr r \<longrightarrow>
     (\<forall>j\<in>set (r_tasks r).
        Inr j \<in> toJSON ` set (taskValues svc)
      \<and> (\<forall>s. f_status f = Some s \<and> s \<noteq> [] \<longrightarrow> j_status j = s)
      \<and> (\<forall>s. f_priority f = Some s \<and> s \<noteq> [] \<longrightarrow> j_priority j = s)
      \<and> (\<forall>q. f_search f = Some q \<and> q \<noteq> [] \<longrightarrow>
             spec_containsIgnoringCase (j_title j) q
           \<or> spec_containsIgnoringCase (j_description j) q
           \<or> (\<exists>tag\<in>set (j_tags j). spec_containsIgnoringCase tag q))
      \<and> (\<forall>w. f_tags f = Some w \<and> w \<noteq> [] \<longrightarrow> (\<exists>tag\<in>set w. tag \<in> set (j_tags j)))))
   \<and> ((\<forall>t\<in>set (taskValues svc). validDates t) \<longrightarrow> (\<exists>r. getTasks tz svc f p = Inr r))"
proof -
  have "Inr j \<in> toJSON ` set (taskValues svc)
      \<and> (\<forall>s. f_status f = Some s \<and> s \<noteq> [] \<longrightarrow> j_status j = s)
      \<and> (\<forall>s. f_priority f = Some s \<and> s \<noteq> [] \<longrightarrow> j_priority j = s)
      \<and> (\<forall>q. f_search f = Some q \<and> q \<noteq> [] \<longrightarrow>
             spec_containsIgnoringCase (j_title j) q
           \<or> spec_containsIgnoringCase (j_description j) q
           \<or> (\<exists>tag\<in>set (j_tags j). spec_containsIgnoringCase tag q))
      \<and> (\<forall>w. f_tags f = Some w \<and> w \<noteq> [] \<longrightarrow> (\<exists>tag\<in>set w. tag \<in> set (j_tags j)))"
    if run: "getTasks tz svc f p = Inr r" and j: "j \<in> set (r_tasks r)" for r j
  proof -
    from getTasks_sources [OF run j] obtain t
      where t: "t \<in> set (filteredTasks tz svc f)" and tj: "toJSON t = Inr j" by blast
    from t have filt: "t \<in> set (applyFilters f (taskValues svc))"
      by (simp add: filteredTasks_def set_sortTasks)
    then have src: "t \<in> set (taskValues svc)" by (rule subsetD [OF set_applyFilters])
    note fields = toJSON_fields [OF tj]
    note preds = in_applyFilters [OF filt]
    have 0: "Inr j \<in> toJSON ` set (taskValues svc)"
      using src tj by (metis imageI)
    have 1: "\<forall>s. f_status f = Some s \<and> s \<noteq> [] \<longrightarrow> j_status j = s"
      using preds fields by simp
    have 2: "\<forall>s. f_priority f = Some s \<and> s \<noteq> [] \<longrightarrow> j_priority j = s"
      using preds fields by simp
    have 3: "\<forall>q. f_search f = Some q \<and> q \<noteq> [] \<longrightarrow>
             spec_containsIgnoringCase (j_title j) q
           \<or> spec_containsIgnoringCase (j_description j) q
           \<or> (\<exists>tag\<in>set (j_tags j). spec_containsIgnoringCase tag q)"
    proof (intro allI impI)
      fix q assume "f_search f = Some q \<and> q \<noteq> []"
      with preds have "matchesSearch (toLowerCase q) t" by blast
      then have "sublist (toLowerCase q) (toLowerCase (j_title j))
           \<or> sublist (toLowerCase q) (toLowerCase (j_description j))
           \<or> (\<exists>tag\<in>set (j_tags j). sublist (toLowerCase q) (toLowerCase tag))"
        using fields by (simp add: matchesSearch_def includes_str_def list_ex_iff)
      then show "spec_containsIgnoringCase (j_title j) q
           \<or> spec_containsIgnoringCase (j_description j) q
           \<or> (\<exists>tag\<in>set (j_tags j). spec_containsIgnoringCase tag q)"
        unfolding containsIgnoringCase_iff .
    qed
    have 4: "\<forall>w. f_tags f = Some w \<and> w \<noteq> [] \<longrightarrow> (\<exists>tag\<in>set w. tag \<in> set (j_tags j))"
    proof (intro allI impI)
      fix w assume "f_tags f = Some w \<and> w \<noteq> []"
      with preds have "matchesTags w t" by blast
      then show "\<exists>tag\<in>set w. tag \<in> set (j_tags j)"
        using fields by (simp add: matchesTags_def list_ex_iff)
    qed
    from 0 1 2 3 4 show ?thesis by (intro conjI)
  qed
  moreover have "\<exists>r. getTasks tz svc f p = Inr r" if "\<forall>t\<in>set (taskValues svc). validDates t"
    using getTasks_total [OF that] by blast
  ultimately show ?thesis by blast
qed

theorem getTasks_filters_witness:
  "\<exists>r. getTasks 0 accentStore (noFilters \<lparr> f_search := Some (CHR 0xE9 # ''COLE'') \<rparr>) noPagination = Inr r
     \<and> map j_title (r_tasks r) = [CHR 0xC9 # ''cole'']
     \<and> list_all (\<lambda>j. spec_containsIgnoringCase (j_title j) (CHR 0xE9 # ''COLE'')
                     \<or> spec_containsIgnoringCase (j_description j) (CHR 0xE9 # ''COLE'')
                     \<or> list_ex (\<lambda>tag. spec_containsIgnoringCase tag (CHR 0xE9 # ''COLE'')) (j_tags j))
          (r_tasks r)"
proof -
  let ?q = "CHR 0xE9 # ''COLE''"
  let ?f = "noFilters \<lparr> f_search := Some ?q \<rparr>"
  note inst = getTasks_filters [of 0 accentStore ?f noPagination]
  from inst have "(\<forall>t\<in>set (taskValues accentStore). validDates t)
      \<longrightarrow> (\<exists>r. getTasks 0 accentStore ?f noPagination = Inr r)"
    by (rule conjunct2)
  then have "\<exists>r. getTasks 0 accentStore ?f noPagination = Inr r"
    using accentStore_valid by (rule mp)
  then obtain r where r: "getTasks 0 accentStore ?f noPagination = Inr r" ..
  from inst have "\<forall>r. getTasks 0 accentStore ?f noPagination = Inr r \<longrightarrow>
     (\<forall>j\<in>set (r_tasks r).
        Inr j \<in> toJSON ` set (taskValues accentStore)
      \<and> (\<forall>s. f_status ?f = Some s \<and> s \<noteq> [] \<longrightarrow> j_status j = s)
      \<and> (\<forall>s. f_priority ?f = Some s \<and> s \<noteq> [] \<longrightarrow> j_priority j = s)
      \<and> (\<forall>q. f_search ?f = Some q \<and> q \<noteq> [] \<longrightarrow>
             spec_containsIgnoringCase (j_title j) q
           \<or> spec_containsIgnoringCase (j_description j) q
           \<or> (\<exists>tag\<in>set (j_tags j). spec_containsIgnoringCase tag q))
      \<and> (\<forall>w. f_tags ?f = Some w \<and> w \<noteq> [] \<longrightarrow> (\<exists>tag\<in>set w. tag \<in> set (j_tags j))))"
    by (rule conjunct1)
  then have "getTasks 0 accentStore ?f noPagination = Inr r \<longrightarrow>
     (\<forall>j\<in>set (r_tasks r).
        Inr j \<in> toJSON ` set (taskValues accentStore)
      \<and> (\<forall>s. f_status ?f = Some s \<and> s \<noteq> [] \<longrightarrow> j_status j = s)
      \<and> (\<forall>s. f_priority ?f = Some s \<and> s \<noteq> [] \<longrightarrow> j_priority j = s)
      \<and> (\<forall>q. f_search ?f = Some q \<and> q \<noteq> [] \<longrightarrow>
             spec_containsIgnoringCase (j_title j) q
           \<or> spec_containsIgnoringCase (j_description j) q
           \<or> (\<exists>tag\<in>set (j_tags j). spec_containsIgnoringCase tag q))
      \<and> (\<forall>w. f_tags ?f = Some w \<and> w \<noteq> [] \<longrightarrow> (\<exists>tag\<in>set w. tag \<in> set (j_tags j))))"
    by (rule spec)
  then have whole: "\<forall>j\<in>set (r_tasks r).
        Inr j \<in> toJSON ` set (taskValues accentStore)
      \<and> (\<forall>s. f_status ?f = Some s \<and> s \<noteq> [] \<longrightarrow> j_status j = s)
      \<and> (\<forall>s. f_priority ?f = Some s \<and> s \<noteq> [] \<longrightarrow> j_priority j = s)
      \<and> (\<forall>q. f_search ?f = Some q \<and> q \<noteq> [] \<longrightarrow>
             spec_containsIgnoringCase (j_title j) q
           \<or> spec_containsIgnoringCase (j_description j) q
           \<or> (\<exists>tag\<in>set (j_tags j). spec_containsIgnoringCase tag q))
      \<and> (\<forall>w. f_tags ?f = Some w \<and> w \<noteq> [] \<longrightarrow> (\<exists>tag\<in>set w. tag \<in> set (j_tags j)))"
    using r by (rule mp)
  have "spec_containsIgnoringCase (j_title j) ?q
         \<or> spec_containsIgnoringCase (j_description j) ?q
         \<or> list_ex (\<lambda>tag. spec_containsIgnoringCase tag ?q) (j_tags j)"
    if "j \<in> set (r_tasks r)" for j
  proof -
    from bspec [OF whole that] have "\<forall>q. f_search ?f = Some q \<and> q \<noteq> [] \<longrightarrow>
             spec_containsIgnoringCase (j_title j) q
           \<or> spec_containsIgnoringCase (j_description j) q
           \<or> (\<exists>tag\<in>set (j_tags j). spec_containsIgnoringCase tag q)"
      by (elim conjE)
    then have "f_search ?f = Some ?q \<and> ?q \<noteq> [] \<longrightarrow>
             spec_containsIgnoringCase (j_title j) ?q
           \<or> spec_containsIgnoringCase (j_description j) ?q
           \<or> (\<exists>tag\<in>set (j_tags j). spec_containsIgnoringCase tag ?q)"
      by (rule spec)
    moreover have "f_search ?f = Some ?q \<and> ?q \<noteq> []" by simp
    ultimately have "spec_containsIgnoringCase (j_title j) ?q
           \<or> spec_containsIgnoringCase (j_description j) ?q
           \<or> (\<exists>tag\<in>set (j_tags j). spec_containsIgnoringCase tag ?q)"
      by (rule mp)
    then show ?thesis by (simp only: list_ex_iff)
  qed
  then have "list_all (\<lambda>j. spec_containsIgnoringCase (j_title j) ?q
                     \<or> spec_containsIgnoringCase (j_description j) ?q
                     \<or> list_ex (\<lambda>tag. spec_containsIgnoringCase tag ?q) (j_tags j))
          (r_tasks r)"
    by (simp only: list_all_iff) blast
  moreover from accent_query have "map j_title (r_tasks r) = [CHR 0xC9 # ''cole'']"
    unfolding r by simp
  ultimately have "getTasks 0 accentStore ?f noPagination = Inr r
     \<and> map j_title (r_tasks r) = [CHR 0xC9 # ''cole'']
     \<and> list_all (\<lambda>j. spec_containsIgnoringCase (j_title j) ?q
                     \<or> spec_containsIgnoringCase (j_description j) ?q
                     \<or> list_ex (\<lambda>tag. spec_containsIgnoringCase tag ?q) (j_tags j))
          (r_tasks r)" using r by (intro conjI)
  then show ?thesis ..
qed

text \<open>
  C7. In the order by \<open>dueDate\<close>, ascending, a task with no due date is compared as
  if it were due at \<open>new Date(9999, 11, 31)\<close>: every task whose due date is earlier
  than that instant comes before every task that has no due date.
\<close>

theorem sort_dueDate_last:
  assumes valid: "\<forall>t\<in>set (taskValues svc). validDates t"
    and sortBy: "f_sortBy f = Some ''dueDate''" and asc: "f_sortOrder f \<noteq> Some ''desc''"
    and i: "i < length (filteredTasks tz svc f)" and j: "j < length (filteredTasks tz svc f)"
    and due: "dueDate (filteredTasks tz svc f ! i) = Some (Instant d)" "d < farFuture tz"
    and none: "dueDate (filteredTasks tz svc f ! j) = None"
  shows "i < j"
proof (rule ccontr)
  assume "\<not> i < j"
  moreover have "i \<noteq> j" using due none by auto
  ultimately have ji: "j < i" by simp
  let ?xs = "applyFilters f (taskValues svc)"
  let ?S = "{t. dueDate t \<noteq> Some InvalidDate}"
  have sub: "set ?xs \<subseteq> ?S"
    using set_applyFilters [of f "taskValues svc"] valid by (auto simp: validDates_def)
  have seq: "filteredTasks tz svc f = sortWith (compareTasks tz ''dueDate'' (f_sortOrder f)) ?xs"
    using sortBy by (simp add: filteredTasks_def sortTasks_def)
  have "sorted_wrt (\<lambda>a b. dueKey tz a \<le> dueKey tz b) (filteredTasks tz svc f)"
    unfolding seq
    by (rule sorted_sortWith [where S = ?S, OF _ sub]) (simp add: compare_dueDate_asc asc)
  then have "dueKey tz (filteredTasks tz svc f ! j) \<le> dueKey tz (filteredTasks tz svc f ! i)"
    using ji i by (simp add: sorted_wrt_iff_nth_less)
  with none due show False by (simp add: dueKey_def)
qed

theorem sort_dueDate_last_witness:
  "dueDate (filteredTasks 0 threeTasks (noFilters \<lparr> f_sortBy := Some ''dueDate'', f_sortOrder := Some ''asc'' \<rparr>) ! 0)
     = Some (Instant 1000)
   \<and> 1000 < farFuture 0
   \<and> dueDate (filteredTasks 0 threeTasks (noFilters \<lparr> f_sortBy := Some ''dueDate'', f_sortOrder := Some ''asc'' \<rparr>) ! 2)
     = None
   \<and> (0::nat) < 2"
proof -
  let ?f = "noFilters \<lparr> f_sortBy := Some ''dueDate'', f_sortOrder := Some ''asc'' \<rparr>"
  have due: "dueDate (filteredTasks 0 threeTasks ?f ! 0) = Some (Instant 1000)"
    and none: "dueDate (filteredTasks 0 threeTasks ?f ! 2) = None"
    by (simp_all add: threeTasks_byDue task_defs)
  have far: "1000 < farFuture 0" by (simp add: farFuture_def)
  have "(0::nat) < 2"
    by (rule sort_dueDate_last [OF threeTasks_valid _ _ _ _ due far none])
       (simp_all add: threeTasks_byDue)
  with due none far show ?thesis by simp
qed

text \<open>
  The claim as stated fails: the instant is not the latest one a date can hold. With
  local time at UTC, a task due at noon of 31 December 9999 (the instant
  253402257600000) is later than the substitute and is placed after the task without a
  due date, although it was stored first.
\<close>

theorem sort_dueDate_counterexample:
  "map_sum id (\<lambda>r. map j_dueDate (r_tasks r))
     (getTasks 0 lateStore (noFilters \<lparr> f_sortBy := Some ''dueDate'', f_sortOrder := Some ''asc'' \<rparr>) noPagination)
   = Inr [None, Some 253402257600000]"
  by (simp add: lateStore_values query_defs)



text \<open>
  C9. A successful create returns a task with \<open>createdAt \<le> updatedAt\<close> when the
  payload carries no \<open>createdAt\<close>, or one that is not later than the clock, and the
  clock does not run backwards between the two readings of the constructor. A successful
  update keeps \<open>createdAt\<close> and sets \<open>updatedAt\<close> to the clock reading, so the order
  holds when that reading is not earlier than \<open>createdAt\<close>.
\<close>

theorem timestamps_ordered:
  "(createTask svc data uuid now1 now2 = (Inr j, svc') \<and> now1 \<le> now2
      \<and> (d_createdAt data = None \<or> (\<exists>c. d_createdAt data = Some (Instant c) \<and> c \<le> now2))
     \<longrightarrow> j_createdAt j \<le> j_updatedAt j)
   \<and> (getTaskById svc i = Inr j0 \<and> j_createdAt j0 \<le> now
      \<and> updateTask svc i data' now = (Inr j', svc'')
     \<longrightarrow> j_createdAt j' = j_createdAt j0 \<and> j_updatedAt j' = now \<and> j_createdAt j' \<le> j_updatedAt j')"
proof -
  have created: "j_createdAt j \<le> j_updatedAt j"
    if a: "createTask svc data uuid now1 now2 = (Inr j, svc') \<and> now1 \<le> now2
      \<and> (d_createdAt data = None \<or> (\<exists>c. d_createdAt data = Some (Instant c) \<and> c \<le> now2))"
  proof -
    from a obtain t where t: "Task_new data uuid now1 now2 = Inr t" "toJSON t = Inr j"
      using createTask_Inr by blast
    from toJSON_fields [OF t(2)] Task_new_fields(2,3) [OF t(1)]
    have "Instant (j_createdAt j) = (case d_createdAt data of None \<Rightarrow> Instant now1 | Some c \<Rightarrow> c)"
      and "j_updatedAt j = now2" by simp_all
    with a show ?thesis by auto
  qed
  have updated: "j_createdAt j' = j_createdAt j0 \<and> j_updatedAt j' = now \<and> j_createdAt j' \<le> j_updatedAt j'"
    if a: "getTaskById svc i = Inr j0 \<and> j_createdAt j0 \<le> now
      \<and> updateTask svc i data' now = (Inr j', svc'')"
  proof -
    from a obtain r t where rt: "map_of (tasks svc) i = Some r" "objects svc r = Some t"
        "toJSON (assignFields data' now t) = Inr j'"
      using updateTask_Inr by blast
    with a have "toJSON t = Inr j0" by (simp add: getTaskById_def)
    from toJSON_fields [OF this] toJSON_fields [OF rt(3)]
    have "Instant (j_createdAt j') = Instant (j_createdAt j0)" "Instant (j_updatedAt j') = Instant now"
      by (simp_all add: assignFields_def)
    then have "j_createdAt j' = j_createdAt j0" "j_updatedAt j' = now" by simp_all
    with a show ?thesis by simp
  qed
  from created updated show ?thesis by blast
qed

theorem timestamps_ordered_witness:
  "createTask emptyService (noData \<lparr> d_title := Some ''write report'' \<rparr>) ''id-1'' 1000 1000
     = (Inr \<lparr> j_id = ''id-1'', j_title = ''write report'', j_description = [], j_status = ''todo'',
              j_priority = ''medium'', j_dueDate = None, j_tags = [], j_createdAt = 1000,
              j_updatedAt = 1000 \<rparr>, oneTask)
   \<and> (1000::int) \<le> 1000
   \<and> fst (updateTask oneTask ''id-1'' (noData \<lparr> d_status := Some ''completed'' \<rparr>) 5000)
     = Inr \<lparr> j_id = ''id-1'', j_title = ''write report'', j_description = [], j_status = ''completed'',
             j_priority = ''medium'', j_dueDate = None, j_tags = [], j_createdAt = 1000,
             j_updatedAt = 5000 \<rparr>
   \<and> (1000::int) \<le> 5000"
proof -
  let ?j0 = "\<lparr> j_id = ''id-1'', j_title = ''write report'', j_description = [], j_status = ''todo'',
              j_priority = ''medium'', j_dueDate = None, j_tags = [], j_createdAt = 1000,
              j_updatedAt = 1000 \<rparr>"
  let ?j1 = "\<lparr> j_id = ''id-1'', j_title = ''write report'', j_description = [], j_status = ''completed'',
             j_priority = ''medium'', j_dueDate = None, j_tags = [], j_createdAt = 1000,
             j_updatedAt = 5000 \<rparr>"
  let ?d = "noData \<lparr> d_title := Some ''write report'' \<rparr>"
  let ?u = "noData \<lparr> d_status := Some ''completed'' \<rparr>"
  let ?s = "snd (updateTask oneTask ''id-1'' ?u 5000)"
  have upd: "updateTask oneTask ''id-1'' ?u 5000 = (Inr ?j1, ?s)"
    using oneTask_complete by (simp add: prod_eq_iff)
  note created = timestamps_ordered [of emptyService ?d "''id-1''" 1000 1000 ?j0 oneTask]
  note updated = timestamps_ordered [of oneTask _ _ _ _ _ _ "''id-1''" ?j0 5000 ?u ?j1 ?s]
  have pre1: "createTask emptyService ?d ''id-1'' 1000 1000 = (Inr ?j0, oneTask) \<and> (1000::int) \<le> 1000
      \<and> (d_createdAt ?d = None \<or> (\<exists>c. d_createdAt ?d = Some (Instant c) \<and> c \<le> 1000))"
    using create_plain by (simp add: noData_def)
  have pre2: "getTaskById oneTask ''id-1'' = Inr ?j0 \<and> j_createdAt ?j0 \<le> 5000
      \<and> updateTask oneTask ''id-1'' ?u 5000 = (Inr ?j1, ?s)"
    using oneTask_get upd by simp
  from created have imp1: "createTask emptyService ?d ''id-1'' 1000 1000 = (Inr ?j0, oneTask) \<and> (1000::int) \<le> 1000
      \<and> (d_createdAt ?d = None \<or> (\<exists>c. d_createdAt ?d = Some (Instant c) \<and> c \<le> 1000))
      \<longrightarrow> j_createdAt ?j0 \<le> j_updatedAt ?j0"
    by (rule conjunct1)
  from updated have imp2: "getTaskById oneTask ''id-1'' = Inr ?j0 \<and> j_createdAt ?j0 \<le> 5000
      \<and> updateTask oneTask ''id-1'' ?u 5000 = (Inr ?j1, ?s)
      \<longrightarrow> j_createdAt ?j1 = j_createdAt ?j0 \<and> j_updatedAt ?j1 = 5000 \<and> j_createdAt ?j1 \<le> j_updatedAt ?j1"
    by (rule conjunct2)
  from imp1 pre1 have 1: "j_createdAt ?j0 \<le> j_updatedAt ?j0" by (rule mp)
  from imp2 pre2 have "j_createdAt ?j1 = j_createdAt ?j0 \<and> j_updatedAt ?j1 = 5000 \<and> j_createdAt ?j1 \<le> j_updatedAt ?j1"
    by (rule mp)
  then have 2: "j_createdAt ?j1 \<le> j_updatedAt ?j1" by (elim conjE)
  from 1 have "(1000::int) \<le> 1000" by simp
  moreover from 2 have "(1000::int) \<le> 5000" by simp
  ultimately show ?thesis using create_plain oneTask_complete by (intro conjI)
qed

text \<open>
  The claim as stated fails for a payload whose \<open>createdAt\<close> lies in the future: the
  constructor keeps it and stamps \<open>updatedAt\<close> with the clock.
\<close>

theorem timestamps_counterexample:
  "fst (createTask emptyService (noData \<lparr> d_title := Some ''plan'', d_createdAt := Some (Instant 9000) \<rparr>)
      ''id-9'' 1000 1000)
   = Inr \<lparr> j_id = ''id-9'', j_title = ''plan'', j_description = [], j_status = ''todo'',
           j_priority = ''medium'', j_dueDate = None, j_tags = [], j_createdAt = 9000,
           j_updatedAt = 1000 \<rparr>"
  by (simp add: model_defs toJSON_def)

text \<open>
  C10. A successful create whose payload carries a non-empty \<open>id\<close> stores the task
  under that id and returns it with that id; if the id was a key of the map, the new
  task replaces the old one where the key stands and the map keeps its size, otherwise
  the key is appended.
\<close>

theorem createTask_keeps_given_id:
  assumes given: "d_id data = Some i" "i \<noteq> []"
    and run: "createTask svc data uuid now1 now2 = (Inr j, svc')"
  shows "j_id j = i \<and> getTaskById svc' i = Inr j
     \<and> (i \<in> fst ` set (tasks svc) \<longrightarrow>
          map fst (tasks svc') = map fst (tasks svc) \<and> length (tasks svc') = length (tasks svc))
     \<and> (i \<notin> fst ` set (tasks svc) \<longrightarrow> map fst (tasks svc') = map fst (tasks svc) @ [i])"
proof -
  from createTask_Inr [OF run] obtain t where t: "Task_new data uuid now1 now2 = Inr t"
    "toJSON t = Inr j"
    and svc': "svc' = svc \<lparr> objects := (objects svc)(nextRef svc \<mapsto> t),
                     tasks := AList.update (taskId t) (nextRef svc) (tasks svc),
                     nextRef := Suc (nextRef svc) \<rparr>" by blast
  have tid: "taskId t = i" using Task_new_fields(1) [OF t(1)] given by (simp add: or_else_def)
  have jid: "j_id j = i" using toJSON_fields [OF t(2)] tid by simp
  have get: "getTaskById svc' i = Inr j"
    by (simp add: getTaskById_def svc' tid update_conv' t(2))
  have keys: "map fst (tasks svc') =
      (if i \<in> set (map fst (tasks svc)) then map fst (tasks svc) else map fst (tasks svc) @ [i])"
    by (simp add: svc' tid update_keys)
  have "i \<in> fst ` set (tasks svc) \<longrightarrow> length (tasks svc') = length (tasks svc)"
    using keys by (metis length_map list.set_map)
  with jid get keys show ?thesis by simp
qed

theorem createTask_keeps_given_id_witness:
  "getTaskById
     (snd (createTask oneTask (noData \<lparr> d_id := Some ''id-1'', d_title := Some ''rewritten'' \<rparr>)
             ''fresh-uuid'' 3000 3000)) ''id-1''
     = Inr \<lparr> j_id = ''id-1'', j_title = ''rewritten'', j_description = [], j_status = ''todo'',
             j_priority = ''medium'', j_dueDate = None, j_tags = [], j_createdAt = 3000,
             j_updatedAt = 3000 \<rparr>
   \<and> length (tasks (snd (createTask oneTask
             (noData \<lparr> d_id := Some ''id-1'', d_title := Some ''rewritten'' \<rparr>) ''fresh-uuid'' 3000 3000)))
     = 1"
proof -
  let ?d = "noData \<lparr> d_id := Some ''id-1'', d_title := Some ''rewritten'' \<rparr>"
  let ?j = "\<lparr> j_id = ''id-1'', j_title = ''rewritten'', j_description = [], j_status = ''todo'',
             j_priority = ''medium'', j_dueDate = None, j_tags = [], j_createdAt = 3000,
             j_updatedAt = 3000 \<rparr>"
  let ?s = "snd (createTask oneTask ?d ''fresh-uuid'' 3000 3000)"
  have given: "d_id ?d = Some ''id-1''" "''id-1'' \<noteq> []" by simp_all
  have run: "createTask oneTask ?d ''fresh-uuid'' 3000 3000 = (Inr ?j, ?s)"
    using oneTask_recreate by (simp add: prod_eq_iff)
  have present: "''id-1'' \<in> fst ` set (tasks oneTask)" by (simp add: oneTask_eq)
  note inst = createTask_keeps_given_id [OF given run]
  from inst have get: "getTaskById ?s ''id-1'' = Inr ?j"
    by (elim conjE)
  from inst have "''id-1'' \<in> fst ` set (tasks oneTask) \<longrightarrow>
          map fst (tasks ?s) = map fst (tasks oneTask) \<and> length (tasks ?s) = length (tasks oneTask)"
    by (elim conjE)
  from this present have "map fst (tasks ?s) = map fst (tasks oneTask) \<and> length (tasks ?s) = length (tasks oneTask)"
    by (rule mp)
  then have "length (tasks ?s) = 1" by (simp add: oneTask_eq)
  with get show ?thesis by (rule conjI)
qed

text \<open>
  The claim as stated fails for a payload whose \<open>id\<close> is the empty string: it is
  falsy, and the task gets the generated id.
\<close>

theorem createTask_empty_id_counterexample:
  "fst (createTask emptyService (noData \<lparr> d_id := Some [], d_title := Some ''plan'' \<rparr>) ''fresh-uuid'' 1000 1000)
   = Inr \<lparr> j_id = ''fresh-uuid'', j_title = ''plan'', j_description = [], j_status = ''todo'',
           j_priority = ''medium'', j_dueDate = None, j_tags = [], j_createdAt = 1000,
           j_updatedAt = 1000 \<rparr>"
  by (simp add: model_defs toJSON_def)

end
